theory Spec2Isabelle
  imports Complex_Main "HOL-Library.Log_Nat" "HOL-Library.Sublist"
begin

section \<open>Token estimation benchmark (scripts/token\_estimation.py)\<close>

subsection \<open>The word corpus\<close>

definition LOREM_WORDS :: "string list" where
  "LOREM_WORDS =
    [''lorem'', ''ipsum'', ''dolor'', ''sit'', ''amet'', ''consectetur'', ''adipiscing'',
     ''elit'', ''sed'', ''do'', ''eiusmod'', ''tempor'', ''incididunt'', ''ut'', ''labore'',
     ''et'', ''dolore'', ''magna'', ''aliqua'', ''ut'', ''enim'', ''ad'', ''minim'',
     ''veniam'', ''quis'', ''nostrud'', ''exercitation'', ''ullamco'', ''laboris'', ''nisi'',
     ''ut'', ''aliquip'', ''ex'', ''ea'', ''commodo'', ''consequat'', ''duis'', ''aute'',
     ''irure'', ''dolor'', ''in'', ''reprehenderit'', ''in'', ''voluptate'', ''velit'',
     ''esse'', ''cillum'', ''dolore'', ''eu'', ''fugiat'', ''nulla'', ''pariatur'',
     ''excepteur'', ''sint'', ''occaecat'', ''cupidatat'', ''non'', ''proident'', ''sunt'',
     ''in'', ''culpa'', ''qui'', ''officia'', ''deserunt'', ''mollit'', ''anim'', ''id'',
     ''est'', ''laborum'']"

subsection \<open>The pseudo-random source\<close>

text \<open>
  \<^verbatim>\<open>random.Random\<close> is library code. Its state is modelled by the sequence of raw
  outputs it will produce (\<open>draws\<close>) and the number of outputs consumed so far (\<open>pos\<close>).
  \<^verbatim>\<open>rng.choice(seq)\<close> returns \<^verbatim>\<open>seq[i]\<close> for an index \<open>0 \<le> i < len(seq)\<close> obtained
  from the next output and advances the state by one output; the reduction of the raw
  output into the index range is written as \<open>mod\<close>.
\<close>

record rng =
  draws :: "nat \<Rightarrow> nat"
  pos :: nat

definition choice :: "rng \<Rightarrow> string \<times> rng" where
  "choice r =
     (LOREM_WORDS ! (draws r (pos r) mod length LOREM_WORDS), r\<lparr>pos := pos r + 1\<rparr>)"

subsection \<open>Text generation\<close>

text \<open>\<^verbatim>\<open>" ".join(words)\<close>\<close>

fun join_space :: "string list \<Rightarrow> string" where
  "join_space [] = []"
| "join_space [w] = w"
| "join_space (w # v # ws) = w @ '' '' @ join_space (v # ws)"

text \<open>
  \<^verbatim>\<open>text[:k]\<close> for a Python integer \<open>k\<close>: a negative \<open>k\<close> counts from the end of the
  string, and the bound is clipped to the string.
\<close>

definition slice_to :: "string \<Rightarrow> int \<Rightarrow> string" where
  "slice_to s k = (if 0 \<le> k then take (nat k) s else take (nat (int (length s) + k)) s)"

text \<open>
  The \<^verbatim>\<open>while True\<close> loop of \<^verbatim>\<open>generate_lorem_text_by_chars\<close>, with the local list
  \<open>words\<close> as an argument. \<open>None\<close> stands for a loop that never returns. The result carries
  the state in which the call leaves \<open>rng\<close>.
\<close>

partial_function (option) generate_loop :: "int \<Rightarrow> rng \<Rightarrow> string list \<Rightarrow> (string \<times> rng) option" where
  "generate_loop target_chars r ws =
     (let (word, r') = choice r;
          ws' = ws @ [word];
          text = join_space ws'
      in if int (length text) \<ge> target_chars then Some (slice_to text target_chars, r')
         else generate_loop target_chars r' ws')"

declare generate_loop.simps [code]

definition generate_lorem_text_by_chars :: "int \<Rightarrow> rng \<Rightarrow> (string \<times> rng) option" where
  "generate_lorem_text_by_chars target_chars r = generate_loop target_chars r []"

text \<open>
  The list comprehension \<^verbatim>\<open>[generate_lorem_text_by_chars(chars, rng) for _ in range(trials)]\<close>
  of \<^verbatim>\<open>run_benchmark\<close>: \<open>n\<close> calls in sequence on the one shared \<open>rng\<close>.
\<close>

fun generate_texts :: "nat \<Rightarrow> int \<Rightarrow> rng \<Rightarrow> (string list \<times> rng) option" where
  "generate_texts 0 chars r = Some ([], r)"
| "generate_texts (Suc n) chars r =
     (case generate_lorem_text_by_chars chars r of
        None \<Rightarrow> None
      | Some (t, r') \<Rightarrow>
          (case generate_texts n chars r' of
             None \<Rightarrow> None
           | Some (ts, r'') \<Rightarrow> Some (t # ts, r'')))"

subsection \<open>Errors\<close>

text \<open>
  The exceptions that leave the functions modelled here: \<^verbatim>\<open>statistics.StatisticsError\<close>,
  \<^verbatim>\<open>ZeroDivisionError\<close>, \<^verbatim>\<open>IndexError\<close>, any exception raised by \<^verbatim>\<open>tiktoken\<close> when an
  encoding cannot be obtained, and the \<^verbatim>\<open>ValueError\<close> that \<^verbatim>\<open>encode\<close> raises on a text
  with a special token.
\<close>

datatype error = StatisticsError | ZeroDivisionError | IndexError | TiktokenError | ValueError

subsection \<open>The double-precision product behind the percentile index\<close>

text \<open>
  \<^verbatim>\<open>0.95 * len(counts_sorted)\<close> is a product of two IEEE 754 binary64 numbers, rounded to
  nearest with ties to even, and \<^verbatim>\<open>math.ceil\<close> of the result is an exact integer. A
  non-negative double is modelled as a pair \<open>(m, e)\<close> of integers standing for \<open>m * 2^e\<close>
  with \<open>m < 2^53\<close> (or \<open>m = 2^53\<close> after a carry). The exponent is not bounded: the
  numbers multiplied here lie between \<open>0.95\<close> and the length of a list, far from
  overflow and underflow.
\<close>

type_synonym double = "int \<times> int"

text \<open>\<open>m / 2^s\<close> rounded to the nearest integer, ties to the even one.\<close>

definition round_shift :: "int \<Rightarrow> nat \<Rightarrow> int" where
  "round_shift m s =
     (let q = m div 2 ^ s; r = m mod 2 ^ s
      in if 2 * r < 2 ^ s then q
         else if 2 ^ s < 2 * r then q + 1
         else if even q then q else q + 1)"

text \<open>The double nearest to \<open>m * 2^e\<close>, for \<open>m \<ge> 0\<close>: keep the leading 53 bits.\<close>

definition round53 :: "int \<Rightarrow> int \<Rightarrow> double" where
  "round53 m e = (let s = nat (bitlen m - 53) in (round_shift m s, e + int s))"

definition double_of_nat :: "nat \<Rightarrow> double" where
  "double_of_nat n = round53 (int n) 0"

definition double_mul :: "double \<Rightarrow> double \<Rightarrow> double" where
  "double_mul a b = round53 (fst a * fst b) (snd a + snd b)"

text \<open>\<^verbatim>\<open>math.ceil\<close>\<close>

definition double_ceil :: "double \<Rightarrow> int" where
  "double_ceil a =
     (if 0 \<le> snd a then fst a * 2 ^ nat (snd a)
      else - ((- fst a) div 2 ^ nat (- snd a)))"

text \<open>The literal \<^verbatim>\<open>0.95\<close>, that is \<^verbatim>\<open>0x1.e666666666666p-1\<close>.\<close>

definition double_0_95 :: double where
  "double_0_95 = (8556839292003942, - 53)"

subsection \<open>Summary statistics\<close>

record SampleStats =
  size_label :: string
  model :: string
  provider :: string
  num_trials :: int
  mean_tokens :: real
  p50_tokens :: real
  p95_tokens :: real
  stdev_tokens :: real
  mean_tokens_per_1k_chars :: real

text \<open>
  \<^verbatim>\<open>xs[i]\<close> for a Python integer \<open>i\<close>: a negative index counts from the end, an index
  out of range raises \<^verbatim>\<open>IndexError\<close>.
\<close>

definition index :: "'a list \<Rightarrow> int \<Rightarrow> error + 'a" where
  "index xs i =
     (if 0 \<le> i \<and> i < int (length xs) then Inr (xs ! nat i)
      else if i < 0 \<and> - int (length xs) \<le> i then Inr (xs ! nat (int (length xs) + i))
      else Inl IndexError)"

text \<open>
  \<^verbatim>\<open>statistics.fmean\<close> and \<^verbatim>\<open>statistics.pstdev\<close> are library functions, modelled by
  what their documentation says they compute: the arithmetic mean, and the square root of
  the population variance (the mean of the squared deviations from the mean); each raises
  \<^verbatim>\<open>StatisticsError\<close> on empty data. The float results of the program are modelled by
  the real numbers they approximate; rounding of these fields is not modelled.
\<close>

definition fmean :: "int list \<Rightarrow> error + real" where
  "fmean xs =
     (if xs = [] then Inl StatisticsError
      else Inr (real_of_int (sum_list xs) / real (length xs)))"

definition pstdev :: "int list \<Rightarrow> error + real" where
  "pstdev xs =
     (if xs = [] then Inl StatisticsError
      else let mu = real_of_int (sum_list xs) / real (length xs)
           in Inr (sqrt ((\<Sum>x\<leftarrow>xs. (real_of_int x - mu)\<^sup>2) / real (length xs))))"

definition summarize_counts :: "string \<Rightarrow> string \<Rightarrow> string \<Rightarrow> int list \<Rightarrow> int \<Rightarrow> error + SampleStats" where
  "summarize_counts label prov mdl counts chars =
     (let counts_sorted = sort counts in
      (case fmean counts of
         Inl e \<Rightarrow> Inl e
       | Inr mean \<Rightarrow>
      (case index counts_sorted (int (length counts_sorted) div 2) of
         Inl e \<Rightarrow> Inl e
       | Inr p50 \<Rightarrow>
      (let p95_index =
             max 0 (double_ceil (double_mul double_0_95 (double_of_nat (length counts_sorted))) - 1) in
      (case index counts_sorted p95_index of
         Inl e \<Rightarrow> Inl e
       | Inr p95 \<Rightarrow>
      (case (if length counts > 1 then pstdev counts else Inr 0) of
         Inl e \<Rightarrow> Inl e
       | Inr stdev \<Rightarrow>
      (if real_of_int chars / 1000 = 0 then Inl ZeroDivisionError
       else Inr \<lparr>size_label = label, model = mdl, provider = prov,
                 num_trials = int (length counts),
                 mean_tokens = mean,
                 p50_tokens = real_of_int p50,
                 p95_tokens = real_of_int p95,
                 stdev_tokens = stdev,
                 mean_tokens_per_1k_chars = mean / (real_of_int chars / 1000)\<rparr>)))))))"

subsection \<open>Token counters\<close>

text \<open>
  Everything the program reaches outside itself: the constructor of the random source,
  the two entry points of \<^verbatim>\<open>tiktoken\<close> (\<open>None\<close> when the call raises), whether the
  \<^verbatim>\<open>anthropic\<close> package was imported, the value of the environment variable
  \<^verbatim>\<open>ANTHROPIC_API_KEY\<close>, and the Count Tokens request of a client made with a key, for
  a model and a text (\<open>None\<close> when the request or the conversion of its answer raises an
  \<^verbatim>\<open>Exception\<close>). Making the client is taken to succeed.

  An encoding is given by the tokens it produces for a text and by the names of its
  special tokens, which are written \<^verbatim>\<open><|name|>\<close> in a text. \<^verbatim>\<open>encode\<close>, called as the
  source calls it with one argument, raises \<^verbatim>\<open>ValueError\<close> on a text that contains a
  special token of the encoding.
\<close>

record encoding =
  tokens :: "string \<Rightarrow> nat list"
  special :: "string list"

definition encode :: "encoding \<Rightarrow> string \<Rightarrow> error + nat list" where
  "encode enc s =
     (if \<exists>name\<in>set (special enc). sublist (''<|'' @ name @ ''|>'') s then Inl ValueError
      else Inr (tokens enc s))"

record world =
  Random :: "int \<Rightarrow> rng"
  encoding_for_model :: "string \<Rightarrow> encoding option"
  get_encoding :: "string \<Rightarrow> encoding option"
  anthropic_sdk :: bool
  environ_key :: "string option"
  count_tokens :: "string \<Rightarrow> string \<Rightarrow> string \<Rightarrow> int option"

definition get_openai_encoder_for_model :: "world \<Rightarrow> string \<Rightarrow> error + encoding" where
  "get_openai_encoder_for_model w mdl =
     (case encoding_for_model w mdl of
        Some enc \<Rightarrow> Inr enc
      | None \<Rightarrow>
          (case get_encoding w ''o200k_base'' of
             Some enc \<Rightarrow> Inr enc
           | None \<Rightarrow>
               (case get_encoding w ''cl100k_base'' of
                  Some enc \<Rightarrow> Inr enc
                | None \<Rightarrow> Inl TiktokenError)))"

definition count_tokens_openai :: "world \<Rightarrow> string \<Rightarrow> string \<Rightarrow> error + int" where
  "count_tokens_openai w mdl s =
     (case get_openai_encoder_for_model w mdl of
        Inl e \<Rightarrow> Inl e
      | Inr enc \<Rightarrow>
          (case encode enc s of
             Inl e \<Rightarrow> Inl e
           | Inr toks \<Rightarrow> Inr (int (length toks))))"

text \<open>Truth value of an \<^verbatim>\<open>Optional[str]\<close>, and \<^verbatim>\<open>a or b\<close>.\<close>

definition truthy :: "string option \<Rightarrow> bool" where
  "truthy k = (case k of None \<Rightarrow> False | Some s \<Rightarrow> s \<noteq> [])"

definition or_else :: "string option \<Rightarrow> string option \<Rightarrow> string option" where
  "or_else a b = (if truthy a then a else b)"

definition effective_key :: "world \<Rightarrow> string option \<Rightarrow> string option" where
  "effective_key w api_key = or_else api_key (environ_key w)"

text \<open>
  The two closures \<^verbatim>\<open>_count_live\<close> and \<^verbatim>\<open>_count_approx\<close>. The handler of \<^verbatim>\<open>_count_live\<close>
  encodes the text outside any \<^verbatim>\<open>try\<close>, so an exception of \<^verbatim>\<open>encode\<close> leaves the closure.
\<close>

definition count_live :: "world \<Rightarrow> string \<Rightarrow> encoding \<Rightarrow> string \<Rightarrow> string \<Rightarrow> error + int" where
  "count_live w key approx_enc mdl s =
     (case count_tokens w key mdl s of
        Some n \<Rightarrow> Inr n
      | None \<Rightarrow>
          (case encode approx_enc s of
             Inl e \<Rightarrow> Inl e
           | Inr toks \<Rightarrow> Inr (int (length toks))))"

definition count_approx :: "encoding \<Rightarrow> string \<Rightarrow> string \<Rightarrow> error + int" where
  "count_approx approx_enc mdl s =
     (case encode approx_enc s of
        Inl e \<Rightarrow> Inl e
      | Inr toks \<Rightarrow> Inr (int (length toks)))"

definition get_anthropic_counter :: "world \<Rightarrow> string option
    \<Rightarrow> error + (string \<Rightarrow> string \<Rightarrow> error + int)" where
  "get_anthropic_counter w api_key =
     (if anthropic_sdk w \<and> truthy (effective_key w api_key) then
        (case get_encoding w ''cl100k_base'' of
           None \<Rightarrow> Inl TiktokenError
         | Some approx_enc \<Rightarrow> Inr (count_live w (the (effective_key w api_key)) approx_enc))
      else
        (case get_encoding w ''cl100k_base'' of
           None \<Rightarrow> Inl TiktokenError
         | Some approx_enc \<Rightarrow> Inr (count_approx approx_enc)))"

subsection \<open>The benchmark run\<close>

text \<open>\<^verbatim>\<open>str(n)\<close> for an integer, as used by the f-string of the size label.\<close>

fun str_nat :: "nat \<Rightarrow> string" where
  "str_nat n =
     (if n < 10 then [''0123456789'' ! n]
      else str_nat (n div 10) @ [''0123456789'' ! (n mod 10)])"

declare str_nat.simps [simp del]

definition str_int :: "int \<Rightarrow> string" where
  "str_int i = (if i < 0 then ''-'' @ str_nat (nat (- i)) else str_nat (nat i))"

text \<open>
  A list comprehension whose element expression may raise: the first exception ends it.
\<close>

fun map_raise :: "('a \<Rightarrow> error + 'b) \<Rightarrow> 'a list \<Rightarrow> error + 'b list" where
  "map_raise f [] = Inr []"
| "map_raise f (x # xs) =
     (case f x of
        Inl e \<Rightarrow> Inl e
      | Inr y \<Rightarrow> (case map_raise f xs of Inl e \<Rightarrow> Inl e | Inr ys \<Rightarrow> Inr (y # ys)))"

text \<open>The loop over the OpenAI models; \<open>results\<close> is the list appended to.\<close>

fun openai_loop :: "world \<Rightarrow> string \<Rightarrow> int \<Rightarrow> string list \<Rightarrow> string list \<Rightarrow> SampleStats list
    \<Rightarrow> error + SampleStats list" where
  "openai_loop w label chars texts [] results = Inr results"
| "openai_loop w label chars texts (mdl # models) results =
     (case map_raise (count_tokens_openai w mdl) texts of
        Inl e \<Rightarrow> Inl e
      | Inr counts \<Rightarrow>
          (case summarize_counts label ''openai'' mdl counts chars of
             Inl e \<Rightarrow> Inl e
           | Inr row \<Rightarrow> openai_loop w label chars texts models (results @ [row])))"

text \<open>The loop over the Anthropic models.\<close>

fun anthropic_loop :: "(string \<Rightarrow> string \<Rightarrow> error + int) \<Rightarrow> string \<Rightarrow> int \<Rightarrow> string list
    \<Rightarrow> string list \<Rightarrow> SampleStats list \<Rightarrow> error + SampleStats list" where
  "anthropic_loop anthropic_counter label chars texts [] results = Inr results"
| "anthropic_loop anthropic_counter label chars texts (mdl # models) results =
     (case map_raise (anthropic_counter mdl) texts of
        Inl e \<Rightarrow> Inl e
      | Inr counts \<Rightarrow>
          (case summarize_counts label ''anthropic'' mdl counts chars of
             Inl e \<Rightarrow> Inl e
           | Inr row \<Rightarrow>
               anthropic_loop anthropic_counter label chars texts models (results @ [row])))"

text \<open>
  The loop over the sizes. \<open>None\<close> stands for a run that does not return, \<open>Some (Inl e)\<close>
  for a run ended by the exception \<open>e\<close>.
\<close>

fun sizes_loop :: "world \<Rightarrow> (string \<Rightarrow> string \<Rightarrow> error + int) \<Rightarrow> int \<Rightarrow> string list
    \<Rightarrow> string list \<Rightarrow> int list \<Rightarrow> rng \<Rightarrow> SampleStats list
    \<Rightarrow> (error + SampleStats list) option" where
  "sizes_loop w anthropic_counter trials openai_models anthropic_models [] r results =
     Some (Inr results)"
| "sizes_loop w anthropic_counter trials openai_models anthropic_models (chars # sizes) r results =
     (let label = str_int chars @ '' chars'' in
      case generate_texts (nat trials) chars r of
        None \<Rightarrow> None
      | Some (texts, r') \<Rightarrow>
          (case openai_loop w label chars texts openai_models results of
             Inl e \<Rightarrow> Some (Inl e)
           | Inr results1 \<Rightarrow>
               (case anthropic_loop anthropic_counter label chars texts anthropic_models results1 of
                  Inl e \<Rightarrow> Some (Inl e)
                | Inr results2 \<Rightarrow>
                    sizes_loop w anthropic_counter trials openai_models anthropic_models
                      sizes r' results2)))"

definition run_benchmark :: "world \<Rightarrow> int list \<Rightarrow> int \<Rightarrow> string list \<Rightarrow> string list \<Rightarrow> int
    \<Rightarrow> string option \<Rightarrow> (error + SampleStats list) option" where
  "run_benchmark w sizes trials openai_models anthropic_models seed anthropic_api_key =
     (case get_anthropic_counter w anthropic_api_key of
        Inl e \<Rightarrow> Some (Inl e)
      | Inr anthropic_counter \<Rightarrow>
          sizes_loop w anthropic_counter trials openai_models anthropic_models sizes
            (Random w seed) [])"

subsection \<open>A concrete environment\<close>

text \<open>
  An environment for evaluating the definitions on examples: no \<^verbatim>\<open>anthropic\<close> package,
  no key, under every name an encoding with one token per character and the special
  token \<^verbatim>\<open><|endoftext|>\<close>, and a random source whose \<open>i\<close>-th output is \<open>seed + i\<close>.
\<close>

definition char_encoding :: encoding where
  "char_encoding = \<lparr>tokens = map of_char, special = [''endoftext'']\<rparr>"

definition seeded_draws :: "int \<Rightarrow> nat \<Rightarrow> nat" where
  "seeded_draws seed i = nat seed + i"

definition offline_world :: world where
  "offline_world =
     \<lparr>Random = (\<lambda>seed. \<lparr>draws = seeded_draws seed, pos = 0\<rparr>),
      encoding_for_model = (\<lambda>mdl. None),
      get_encoding = (\<lambda>name. Some char_encoding),
      anthropic_sdk = False,
      environ_key = None,
      count_tokens = (\<lambda>key mdl s. None)\<rparr>"

section \<open>Properties of the text generator\<close>

lemma length_LOREM_WORDS: "length LOREM_WORDS = 69"
  by (simp add: LOREM_WORDS_def)

lemma LOREM_WORDS_nonempty: "w \<in> set LOREM_WORDS \<Longrightarrow> w \<noteq> []"
  by (auto simp add: LOREM_WORDS_def)

lemma choice_in_corpus: "fst (choice r) \<in> set LOREM_WORDS"
  unfolding choice_def fst_conv
  by (rule nth_mem) (simp add: length_LOREM_WORDS)

lemma choice_nonempty: "fst (choice r) \<noteq> []"
  using choice_in_corpus LOREM_WORDS_nonempty by blast

lemma choice_pos: "pos (snd (choice r)) = pos r + 1"
  by (simp add: choice_def)

lemma choice_draws: "draws (snd (choice r)) = draws r"
  by (simp add: choice_def)

lemma join_space_snoc:
  "join_space (ws @ [w]) = (if ws = [] then w else join_space ws @ '' '' @ w)"
  by (induction ws rule: join_space.induct) auto

lemma length_join_space_snoc:
  "w \<noteq> [] \<Longrightarrow> length (join_space ws) < length (join_space (ws @ [w]))"
  by (cases w) (auto simp add: join_space_snoc)

lemma generate_loop_unfold:
  "generate_loop t r ws =
     (if t \<le> int (length (join_space (ws @ [fst (choice r)])))
      then Some (slice_to (join_space (ws @ [fst (choice r)])) t, snd (choice r))
      else generate_loop t (snd (choice r)) (ws @ [fst (choice r)]))"
  by (subst generate_loop.simps) (simp add: Let_def case_prod_beta)

text \<open>
  The loop returns from every state: the distance from the joined length to the target
  shrinks with every word. The number of words drawn is at most that distance (and one
  when the distance is not positive).
\<close>

lemma generate_loop_returns:
  "\<exists>out r'. generate_loop t r ws = Some (out, r') \<and>
     pos r < pos r' \<and> draws r' = draws r \<and>
     (0 \<le> t \<longrightarrow> length out = nat t) \<and>
     int (pos r' - pos r) \<le> max 1 (t - int (length (join_space ws)))"
proof (induction "nat (t - int (length (join_space ws)))" arbitrary: r ws rule: less_induct)
  case less
  let ?w = "fst (choice r)" and ?r = "snd (choice r)"
  let ?joined = "join_space (ws @ [?w])"
  have grow: "length (join_space ws) < length ?joined"
    by (rule length_join_space_snoc) (rule choice_nonempty)
  show ?case
  proof (cases "t \<le> int (length ?joined)")
    case True
    then have "generate_loop t r ws = Some (slice_to ?joined t, ?r)"
      by (subst generate_loop_unfold) simp
    moreover have "0 \<le> t \<longrightarrow> length (slice_to ?joined t) = nat t"
      using True by (auto simp add: slice_to_def)
    ultimately show ?thesis
      by (simp add: choice_pos choice_draws)
  next
    case False
    then have step: "generate_loop t r ws = generate_loop t ?r (ws @ [?w])"
      by (subst generate_loop_unfold) simp
    have "nat (t - int (length ?joined)) < nat (t - int (length (join_space ws)))"
      using False grow by linarith
    from less [OF this, of ?r] obtain out r' where
      res: "generate_loop t ?r (ws @ [?w]) = Some (out, r')"
        "pos ?r < pos r'" "draws r' = draws ?r" "0 \<le> t \<longrightarrow> length out = nat t"
        "int (pos r' - pos ?r) \<le> max 1 (t - int (length ?joined))"
      by blast
    have "int (pos r' - pos r) \<le> max 1 (t - int (length (join_space ws)))"
      using res(2,5) False grow by (simp add: choice_pos)
    then show ?thesis
      using step res by (simp add: choice_pos choice_draws)
  qed
qed

lemma generate_first_word:
  "t \<le> int (length (fst (choice r))) \<Longrightarrow>
   generate_lorem_text_by_chars t r = Some (slice_to (fst (choice r)) t, snd (choice r))"
  unfolding generate_lorem_text_by_chars_def
  by (subst generate_loop_unfold) simp

text \<open>
  The result depends on the state of the source only through the words it will choose
  from its current position on.
\<close>

lemma generate_loop_same_choices:
  assumes "\<forall>k. draws r1 (pos r1 + k) mod length LOREM_WORDS
             = draws r2 (pos r2 + k) mod length LOREM_WORDS"
    and "generate_loop t r1 ws = Some (out, r1')"
  shows "\<exists>r2'. generate_loop t r2 ws = Some (out, r2') \<and>
           (\<forall>k. draws r1' (pos r1' + k) mod length LOREM_WORDS
              = draws r2' (pos r2' + k) mod length LOREM_WORDS)"
  using assms
proof (induction "nat (t - int (length (join_space ws)))" arbitrary: r1 r2 ws rule: less_induct)
  case less
  let ?w = "fst (choice r1)"
  let ?joined = "join_space (ws @ [?w])"
  from less.prems(1) have "draws r1 (pos r1 + 0) mod length LOREM_WORDS
      = draws r2 (pos r2 + 0) mod length LOREM_WORDS"
    by blast
  then have same_word: "fst (choice r2) = ?w"
    by (simp add: choice_def)
  have shifted: "\<forall>k. draws (snd (choice r1)) (pos (snd (choice r1)) + k) mod length LOREM_WORDS
       = draws (snd (choice r2)) (pos (snd (choice r2)) + k) mod length LOREM_WORDS"
  proof
    fix k
    from less.prems(1) have "draws r1 (pos r1 + Suc k) mod length LOREM_WORDS
      = draws r2 (pos r2 + Suc k) mod length LOREM_WORDS"
      by blast
    then show "draws (snd (choice r1)) (pos (snd (choice r1)) + k) mod length LOREM_WORDS
       = draws (snd (choice r2)) (pos (snd (choice r2)) + k) mod length LOREM_WORDS"
      by (simp add: choice_pos choice_draws)
  qed
  have grow: "length (join_space ws) < length ?joined"
    by (rule length_join_space_snoc) (rule choice_nonempty)
  show ?case
  proof (cases "t \<le> int (length ?joined)")
    case True
    then have "generate_loop t r1 ws = Some (slice_to ?joined t, snd (choice r1))"
      and "generate_loop t r2 ws = Some (slice_to ?joined t, snd (choice r2))"
      by (subst generate_loop_unfold, simp add: same_word)+
    with less.prems(2) shifted show ?thesis
      by auto
  next
    case False
    then have step1: "generate_loop t r1 ws = generate_loop t (snd (choice r1)) (ws @ [?w])"
      and step2: "generate_loop t r2 ws = generate_loop t (snd (choice r2)) (ws @ [?w])"
      by (subst generate_loop_unfold, simp add: same_word)+
    have "nat (t - int (length ?joined)) < nat (t - int (length (join_space ws)))"
      using False grow by linarith
    from less.hyps [OF this shifted] less.prems(2) step1 step2 show ?thesis
      by simp
  qed
qed

text \<open>
  C10. \<^verbatim>\<open>generate_lorem_text_by_chars\<close> returns for every integer \<open>target_chars\<close> and
  every state of the random source: every word of the corpus is non-empty, so each
  iteration makes the joined text strictly longer; the loop draws at most
  \<open>max 1 target_chars\<close> words, and exactly one word when \<open>target_chars \<le> 0\<close>.
\<close>

theorem generate_lorem_text_by_chars_terminates:
  "(\<forall>w \<in> set LOREM_WORDS. w \<noteq> [] \<and>
       (\<forall>ws. length (join_space ws) < length (join_space (ws @ [w])))) \<and>
   (\<exists>out r'. generate_lorem_text_by_chars target_chars r = Some (out, r') \<and>
       draws r' = draws r \<and> pos r < pos r' \<and>
       int (pos r' - pos r) \<le> max 1 target_chars \<and>
       (target_chars \<le> 0 \<longrightarrow> pos r' = pos r + 1))"
proof -
  obtain out r' where res: "generate_loop target_chars r [] = Some (out, r')"
      "pos r < pos r'" "draws r' = draws r"
      "int (pos r' - pos r) \<le> max 1 (target_chars - int (length (join_space [])))"
    using generate_loop_returns [of target_chars r "[]"] by blast
  have "target_chars \<le> 0 \<longrightarrow> pos r' = pos r + 1"
    using res(2,4) by auto
  then show ?thesis
    using res LOREM_WORDS_nonempty length_join_space_snoc
    by (simp add: generate_lorem_text_by_chars_def)
qed

theorem generate_lorem_text_by_chars_terminates_witness:
  "\<exists>out r'. generate_lorem_text_by_chars (- 3) \<lparr>draws = (\<lambda>i. 5 * i), pos = 0\<rparr> = Some (out, r')
      \<and> pos r' = 1 \<and> length ''lorem'' < length (join_space [''lorem'', ''ipsum''])"
proof -
  have "''ipsum'' \<in> set LOREM_WORDS"
    by (simp add: LOREM_WORDS_def)
  then show ?thesis
    using generate_lorem_text_by_chars_terminates [of "- 3" "\<lparr>draws = (\<lambda>i. 5 * i), pos = 0\<rparr>"]
    by auto
qed

text \<open>
  C1. For \<open>target_chars \<ge> 1\<close> and every state of the random source the generator returns
  a string of exactly \<open>target_chars\<close> characters; when \<open>target_chars\<close> does not exceed the
  length of the first word drawn, the result is that word cut to \<open>target_chars\<close>
  characters.
\<close>

theorem generate_lorem_text_by_chars_length:
  assumes "1 \<le> target_chars"
  shows "\<exists>out r'. generate_lorem_text_by_chars target_chars r = Some (out, r') \<and>
           int (length out) = target_chars \<and>
           (target_chars \<le> int (length (fst (choice r))) \<longrightarrow>
              out = take (nat target_chars) (fst (choice r)))"
proof -
  obtain out r' where res: "generate_loop target_chars r [] = Some (out, r')"
      "0 \<le> target_chars \<longrightarrow> length out = nat target_chars"
    using generate_loop_returns [of target_chars r "[]"] by blast
  have "out = take (nat target_chars) (fst (choice r))"
    if "target_chars \<le> int (length (fst (choice r)))"
    using generate_first_word [OF that] res(1) assms
    by (simp add: generate_lorem_text_by_chars_def slice_to_def)
  then show ?thesis
    using res assms by (simp add: generate_lorem_text_by_chars_def)
qed

theorem generate_lorem_text_by_chars_length_witness:
  "\<exists>r'. generate_lorem_text_by_chars 3 \<lparr>draws = (\<lambda>i. 5 * i), pos = 0\<rparr> = Some (''lor'', r')"
  using generate_lorem_text_by_chars_length [of 3 "\<lparr>draws = (\<lambda>i. 5 * i), pos = 0\<rparr>"]
  by (auto simp add: choice_def LOREM_WORDS_def)

text \<open>
  C9. The generator is deterministic in the state of the random source: two sources
  that will choose the same words from their current positions on give the same string,
  and leave two sources that again will choose the same words, so that the following
  calls agree as well.
\<close>

theorem generate_lorem_text_by_chars_deterministic:
  assumes "\<forall>k. draws r1 (pos r1 + k) mod length LOREM_WORDS
             = draws r2 (pos r2 + k) mod length LOREM_WORDS"
  shows "\<exists>out r1' r2'.
           generate_lorem_text_by_chars target_chars r1 = Some (out, r1') \<and>
           generate_lorem_text_by_chars target_chars r2 = Some (out, r2') \<and>
           (\<forall>k. draws r1' (pos r1' + k) mod length LOREM_WORDS
              = draws r2' (pos r2' + k) mod length LOREM_WORDS)"
proof -
  obtain out r1' where "generate_loop target_chars r1 [] = Some (out, r1')"
    using generate_loop_returns [of target_chars r1 "[]"] by blast
  with generate_loop_same_choices [OF assms this] show ?thesis
    by (auto simp add: generate_lorem_text_by_chars_def)
qed

theorem generate_lorem_text_by_chars_deterministic_witness:
  "\<exists>out r1' r2'.
     generate_lorem_text_by_chars 20 \<lparr>draws = (\<lambda>i. 5 * i), pos = 0\<rparr> = Some (out, r1') \<and>
     generate_lorem_text_by_chars 20 \<lparr>draws = (\<lambda>i. 5 * i + 69), pos = 0\<rparr> = Some (out, r2')"
proof -
  have "\<forall>k. draws \<lparr>draws = (\<lambda>i. 5 * i), pos = 0\<rparr> (pos \<lparr>draws = (\<lambda>i. 5 * i), pos = 0\<rparr> + k)
            mod length LOREM_WORDS
          = draws \<lparr>draws = (\<lambda>i. 5 * i + 69), pos = 0\<rparr>
              (pos \<lparr>draws = (\<lambda>i. 5 * i + 69), pos = 0\<rparr> + k) mod length LOREM_WORDS"
    by (simp add: length_LOREM_WORDS)
  from generate_lorem_text_by_chars_deterministic [OF this, of 20] show ?thesis
    by blast
qed

section \<open>Properties of the double-precision index\<close>

text \<open>Rounding moves a number by at most half a unit in the last place.\<close>

lemma round_shift_bounds:
  assumes "0 \<le> m"
  shows "2 * m - 2 ^ s \<le> 2 * (round_shift m s * 2 ^ s)"
    and "2 * (round_shift m s * 2 ^ s) \<le> 2 * m + 2 ^ s"
proof -
  define T :: int where "T = 2 ^ s"
  define q where "q = m div T"
  define r where "r = m mod T"
  have T: "0 < T" by (simp add: T_def)
  have split: "m = q * T + r" by (simp add: q_def r_def)
  have r: "0 \<le> r" "r < T" using T by (simp_all add: r_def)
  have rs: "round_shift m s = (if 2 * r < T then q else if T < 2 * r then q + 1
      else if even q then q else q + 1)"
    by (simp add: round_shift_def Let_def T_def q_def r_def)
  have q1: "(q + 1) * T = q * T + T" by (simp add: algebra_simps)
  show "2 * m - 2 ^ s \<le> 2 * (round_shift m s * 2 ^ s)"
    unfolding rs T_def [symmetric] using split r q1 by auto
  show "2 * (round_shift m s * 2 ^ s) \<le> 2 * m + 2 ^ s"
    unfolding rs T_def [symmetric] using split r q1 by auto
qed

lemma round_shift_0: "round_shift m 0 = m"
  by (simp add: round_shift_def)


lemma bitlen_le:
  assumes "0 \<le> x" "x < 2 ^ k"
  shows "bitlen x \<le> int k"
proof (cases "x = 0")
  case True
  then show ?thesis by simp
next
  case False
  with assms have "0 < x" by simp
  from bitlen_bounds [OF this] assms(2) have "(2::int) ^ nat (bitlen x - 1) < 2 ^ k"
    by linarith
  then have "nat (bitlen x - 1) < k"
    by (simp add: power_strict_increasing_iff)
  then show ?thesis by linarith
qed

lemma double_of_nat_exact: "n < 2 ^ 53 \<Longrightarrow> double_of_nat n = (int n, 0)"
proof -
  assume "n < 2 ^ 53"
  then have "int n < 2 ^ 53" by (metis of_nat_less_iff of_nat_numeral of_nat_power)
  then have "bitlen (int n) \<le> 53"
    using bitlen_le [of "int n" 53] by simp
  then show ?thesis
    by (simp add: double_of_nat_def round53_def round_shift_0)
qed

lemma bitlen_shift_bound:
  assumes "0 < x" "53 < bitlen x"
  shows "2 ^ nat (bitlen x - 53) * (2::int) ^ 53 \<le> 2 * x"
proof -
  have "nat (bitlen x - 53) + 53 = Suc (nat (bitlen x - 1))"
    using assms(2) by linarith
  then have "2 ^ nat (bitlen x - 53) * (2::int) ^ 53 = 2 * 2 ^ nat (bitlen x - 1)"
    by (metis power_add power_Suc)
  with bitlen_bounds [OF assms(1)] show ?thesis by linarith
qed

lemma ceil_div_unique:
  fixes R U q :: int
  assumes "0 < U" "(q - 1) * U < R" "R \<le> q * U"
  shows "- ((- R) div U) = q"
proof -
  have "(- R) div U = - q"
    by (rule int_div_pos_eq [where r = "q * U - R"])
      (use assms in \<open>simp_all add: algebra_simps\<close>)
  then show ?thesis by simp
qed

text \<open>
  For a length below \<open>2^48\<close> the ceiling of the double-precision product is the ceiling
  of the exact product \<open>19 * n / 20\<close>: the product is off by less than the distance from
  \<open>19 * n / 20\<close> to the next integer below it, and rounding never crosses an integer.
\<close>

lemma double_ceil_0_95:
  assumes "1 \<le> n" "n < 2 ^ 48"
  shows "double_ceil (double_mul double_0_95 (double_of_nat n)) = (19 * int n + 19) div 20"
proof -
  define N where "N = int n"
  define M where "M = 8556839292003942 * N"
  define q where "q = (19 * N + 19) div 20"
  define s where "s = nat (bitlen M - 53)"
  define T :: int where "T = 2 ^ s"
  define U :: int where "U = 2 ^ (53 - s)"
  define R where "R = round_shift M s"
  have N: "1 \<le> N" "N < 281474976710656"
    using assms by (simp_all add: N_def)
  have q: "19 * N \<le> 20 * q" "20 * q \<le> 19 * N + 19"
    unfolding q_def by presburger+
  have M: "0 < M" "20 * M = 171136785840078848 * N - 8 * N"
    using N by (simp_all add: M_def)
  have "M < 2 ^ 101"
    using N by (simp add: M_def)
  then have "bitlen M \<le> 101"
    using bitlen_le [of M 101] M(1) by simp
  then have s: "s \<le> 48"
    by (simp add: s_def)
  have T: "1 \<le> T" by (simp add: T_def)
  have U: "0 < U" by (simp add: U_def)
  have "T * U = 2 ^ (s + (53 - s))"
    unfolding T_def U_def by (simp only: power_add)
  then have TU: "T * U = 9007199254740992"
    using s by simp
  have Tmax: "T * 9007199254740992 \<le> max 9007199254740992 (2 * M)"
  proof (cases "53 < bitlen M")
    case True
    from bitlen_shift_bound [OF M(1) True] show ?thesis
      by (simp add: T_def s_def)
  next
    case False
    then have "s = 0" by (simp add: s_def)
    then show ?thesis by (simp add: T_def)
  qed
  have Rb: "2 * M - T \<le> 2 * (R * T)" "2 * (R * T) \<le> 2 * M + T"
    using round_shift_bounds [of M s] M(1) by (simp_all add: R_def T_def)
  have upper: "R \<le> q * U"
  proof (rule ccontr)
    assume "\<not> R \<le> q * U"
    then have "q * U + 1 \<le> R" by simp
    then have "(q * U + 1) * T \<le> R * T"
      using T by (intro mult_right_mono) simp_all
    moreover have "(q * U + 1) * T = q * (T * U) + T"
      by (simp add: algebra_simps)
    ultimately have "q * 9007199254740992 + T \<le> R * T"
      by (simp only: TU)
    with Rb(2) q(1) M(2) T N show False by linarith
  qed
  have lower: "(q - 1) * U < R"
  proof (rule ccontr)
    assume "\<not> (q - 1) * U < R"
    then have "R \<le> (q - 1) * U" by simp
    then have "R * T \<le> (q - 1) * U * T"
      using T by (intro mult_right_mono) simp_all
    moreover have "(q - 1) * U * T = (q - 1) * (T * U)"
      by (simp add: algebra_simps)
    ultimately have "R * T \<le> (q - 1) * 9007199254740992"
      by (simp only: TU)
    with Rb(1) q(2) M(2) Tmax N show False by (simp add: max_def split: if_splits)
  qed
  have "double_of_nat n = (N, 0)"
    using assms(2) by (simp add: double_of_nat_exact N_def)
  then have "double_mul double_0_95 (double_of_nat n) = (R, - 53 + int s)"
    by (simp add: double_mul_def double_0_95_def round53_def Let_def R_def s_def M_def)
  moreover have "nat (53 - int s) = 53 - s"
    using s by simp
  ultimately have "double_ceil (double_mul double_0_95 (double_of_nat n)) = - ((- R) div U)"
    using s by (simp add: double_ceil_def U_def)
  also have "\<dots> = q"
    using U lower upper by (rule ceil_div_unique)
  finally show ?thesis
    by (simp add: q_def N_def)
qed



text \<open>
  For every length the ceiling of the double-precision product is at most the length, so
  that the percentile index lies inside the list.
\<close>

lemma double_ceil_0_95_le_arith:
  fixes Z X W N T1 :: int
  assumes Z1: "2 * Z \<le> 2 * 8556839292003942 * X + W"
    and W1: "W * 9007199254740992 \<le> max (9007199254740992 * T1) (2 * 8556839292003942 * X)"
    and X1: "2 * X \<le> 2 * N + T1"
    and T1: "1 \<le> T1" "T1 * 9007199254740992 \<le> max 9007199254740992 (2 * N)"
    and N0: "0 \<le> N" and X0: "0 \<le> X"
  shows "Z \<le> N * 9007199254740992"
proof (cases "N = 0")
  case True
  with T1 have "T1 = 1" by simp
  with X1 X0 True have "X = 0" by linarith
  with W1 \<open>T1 = 1\<close> have "W \<le> 1" by simp
  with Z1 \<open>X = 0\<close> True show ?thesis by linarith
next
  case False
  then have N1: "1 \<le> N" using N0 by linarith
  have T1N: "T1 * 9007199254740992 \<le> N * 9007199254740992"
    using T1(2) N1 by (cases "9007199254740992 \<le> 2 * N") (simp_all add: max_def)
  have XP: "X * 9007199254740992 \<le> N * 9007199254740992 + N"
  proof (cases "9007199254740992 \<le> 2 * N")
    case True
    with T1(2) have "T1 * 9007199254740992 \<le> 2 * N" by (simp add: max_def)
    with X1 show ?thesis by linarith
  next
    case False
    with T1 have "T1 = 1" by (simp add: max_def)
    with X1 have "X \<le> N" by linarith
    with N0 show ?thesis by linarith
  qed
  have WP: "W * 9007199254740992 \<le> N * 9007199254740992 + 2 * 8556839292003942 * X"
    using W1 T1N X0 N1 by (cases "9007199254740992 * T1 \<le> 2 * 8556839292003942 * X") (simp_all add: max_def)
  have "2 * Z * 9007199254740992 \<le> 2 * 8556839292003942 * X * 9007199254740992 + W * 9007199254740992"
    using Z1 by linarith
  with WP XP N1 show ?thesis by linarith
qed
lemma round53_bounds:
  assumes "0 \<le> m" "(R, e') = round53 m e"
  shows "\<exists>s T. e' = e + int s \<and> T = 2 ^ s \<and> 1 \<le> T \<and> 0 \<le> R \<and>
           2 * (R * T) \<le> 2 * m + T \<and> 2 * m - T \<le> 2 * (R * T) \<and>
           T * 9007199254740992 \<le> max 9007199254740992 (2 * m)"
proof -
  define s where "s = nat (bitlen m - 53)"
  define T :: int where "T = 2 ^ s"
  have R: "R = round_shift m s" and e': "e' = e + int s"
    using assms(2) by (simp_all add: round53_def s_def)
  have T: "1 \<le> T" by (simp add: T_def)
  have Tmax: "T * 9007199254740992 \<le> max 9007199254740992 (2 * m)"
  proof (cases "53 < bitlen m")
    case True
    then have "0 < m" using assms(1) bitlen_eq_zero_iff [of m] by (cases "m = 0") auto
    from bitlen_shift_bound [OF this True] show ?thesis
      by (simp add: T_def s_def)
  next
    case False
    then have "s = 0" by (simp add: s_def)
    then show ?thesis by (simp add: T_def)
  qed
  have Rb: "2 * m - T \<le> 2 * (R * T)" "2 * (R * T) \<le> 2 * m + T"
    using round_shift_bounds [of m s] assms(1) by (simp_all add: R T_def)
  have "0 \<le> R"
    using assms(1) by (simp add: R round_shift_def Let_def pos_imp_zdiv_nonneg_iff)
  with e' T Tmax Rb show ?thesis
    using T_def by blast
qed

lemma double_ceil_0_95_le:
  "double_ceil (double_mul double_0_95 (double_of_nat n)) \<le> int n"
proof -
  define N where "N = int n"
  obtain R1 e1 where d1: "(R1, e1) = round53 N 0"
    by (metis surj_pair)
  have "0 \<le> N" by (simp add: N_def)
  from round53_bounds [OF this d1] obtain s1 T1 where
    b1: "e1 = int s1" "T1 = 2 ^ s1" "1 \<le> T1" "0 \<le> R1" "2 * (R1 * T1) \<le> 2 * N + T1"
      "T1 * 9007199254740992 \<le> max 9007199254740992 (2 * N)"
    by auto
  define M where "M = 8556839292003942 * R1"
  obtain R2 e2 where d2: "(R2, e2) = round53 M (- 53 + e1)"
    by (metis surj_pair)
  have "0 \<le> M" using b1(4) by (simp add: M_def)
  from round53_bounds [OF this d2] obtain s2 T2 where
    b2: "e2 = - 53 + e1 + int s2" "T2 = 2 ^ s2" "1 \<le> T2" "0 \<le> R2" "2 * (R2 * T2) \<le> 2 * M + T2"
      "T2 * 9007199254740992 \<le> max 9007199254740992 (2 * M)"
    by auto
  have prod: "double_mul double_0_95 (double_of_nat n) = (R2, e2)"
    using d1 [symmetric] d2 [symmetric]
    by (simp add: double_mul_def double_0_95_def double_of_nat_def N_def M_def)
  define X where "X = R1 * T1"
  define Z where "Z = R2 * T2 * T1"
  define W where "W = T2 * T1"
  have "2 * (R2 * T2) * T1 \<le> (2 * M + T2) * T1"
    using b2(5) b1(3) by (intro mult_right_mono) simp_all
  then have Z1: "2 * Z \<le> 2 * 8556839292003942 * X + W"
    by (simp add: Z_def X_def W_def M_def algebra_simps)
  have "T2 * 9007199254740992 * T1 \<le> max 9007199254740992 (2 * M) * T1"
    using b2(6) b1(3) by (intro mult_right_mono) simp_all
  moreover have "max 9007199254740992 (2 * M) * T1 = max (9007199254740992 * T1) (2 * M * T1)"
    using b1(3) by (simp add: max_def)
  ultimately have W1: "W * 9007199254740992 \<le> max (9007199254740992 * T1) (2 * 8556839292003942 * X)"
    by (simp add: W_def X_def M_def algebra_simps)
  have X1: "2 * X \<le> 2 * N + T1"
    using b1(5) by (simp add: X_def)
  have X0: "0 \<le> X"
    using b1(3,4) by (simp add: X_def)
  have key: "Z \<le> N * 9007199254740992"
    using Z1 W1 X1 b1(3,6) \<open>0 \<le> N\<close> X0 by (rule double_ceil_0_95_le_arith)
  show ?thesis
  proof (cases "0 \<le> e2")
    case True
    then have e2: "nat e2 + 53 = s1 + s2"
      using b1(1) b2(1) by linarith
    have "(2::int) ^ nat e2 * 2 ^ 53 = 2 ^ s1 * 2 ^ s2"
      unfolding power_add [symmetric] using e2 by simp
    then have "(2::int) ^ nat e2 * 9007199254740992 = T1 * T2"
      by (simp add: b1(2) b2(2))
    then have "R2 * (2 ^ nat e2 * 9007199254740992) = R2 * (T1 * T2)"
      by (rule arg_cong)
    then have "R2 * 2 ^ nat e2 * 9007199254740992 = Z"
      by (simp add: Z_def algebra_simps)
    with key have "R2 * 2 ^ nat e2 \<le> N"
      by simp
    with True show ?thesis
      by (simp add: prod double_ceil_def N_def)
  next
    case False
    define U :: int where "U = 2 ^ nat (- e2)"
    have U: "0 < U" by (simp add: U_def)
    have "nat (- e2) + (s1 + s2) = 53"
      using False b1(1) b2(1) by linarith
    then have "U * (T2 * T1) = 2 ^ 53"
      unfolding U_def b1(2) b2(2) by (metis power_add add.commute)
    then have UW: "U * W = 9007199254740992"
      by (simp add: W_def)
    have W: "0 < W" using b1(3) b2(3) by (simp add: W_def)
    have "R2 * W \<le> N * U * W"
      using key UW by (simp add: Z_def W_def algebra_simps)
    then have "R2 \<le> N * U"
      using W by simp
    then have "- (N * U) \<le> - R2" by simp
    then have "(- (N * U)) div U \<le> (- R2) div U"
      using U by (intro zdiv_mono1) simp_all
    moreover have "(- (N * U)) div U = - N"
      using U by (metis less_irrefl minus_mult_left nonzero_mult_div_cancel_right)
    ultimately have "- N \<le> (- R2) div U"
      by simp
    with False show ?thesis
      by (simp add: prod double_ceil_def N_def U_def)
  qed
qed


section \<open>Properties of the summarizer\<close>

lemma nat_half: "nat (int n div 2) = n div 2"
  by (metis nat_int of_nat_numeral zdiv_int)

lemma neg_div_20: "- (- k div 20) = (k + 19) div (20::int)"
proof -
  define q where "q = (k + 19) div 20"
  have "k + 19 = 20 * q + (k + 19) mod 20"
    by (simp add: q_def)
  moreover have "0 \<le> (k + 19) mod 20" "(k + 19) mod 20 < 20"
    by simp_all
  ultimately have "- k = 20 * (- q) + (19 - (k + 19) mod 20)"
    and "0 \<le> 19 - (k + 19) mod 20" and "19 - (k + 19) mod 20 < 20"
    by linarith+
  then have "- k div 20 = - q"
    by (rule int_div_pos_eq)
  then show ?thesis by (simp add: q_def)
qed

lemma real_0_95: "0.95 * real n = real_of_int (19 * int n) / real_of_int 20"
  by simp

lemma ceiling_0_95: "\<lceil>0.95 * real n\<rceil> = (19 * int n + 19) div 20"
  unfolding real_0_95 ceiling_divide_eq_div by (rule neg_div_20)

lemma index_in_range: "0 \<le> i \<Longrightarrow> i < int (length xs) \<Longrightarrow> index xs i = Inr (xs ! nat i)"
  by (simp add: index_def)

lemma index_p50:
  assumes "counts \<noteq> []"
  shows "index (sort counts) (int (length (sort counts)) div 2)
      = Inr (sort counts ! (length counts div 2))"
proof -
  have "0 < int (length counts)" using assms by simp
  then have "int (length counts) div 2 < int (length counts)"
    by linarith
  then have "index (sort counts) (int (length counts) div 2)
      = Inr (sort counts ! nat (int (length counts) div 2))"
    by (intro index_in_range) simp_all
  then show ?thesis
    by (simp add: nat_half)
qed

lemma index_p95:
  assumes "counts \<noteq> []"
  shows "index (sort counts)
        (max 0 (double_ceil (double_mul double_0_95 (double_of_nat (length (sort counts)))) - 1))
      = Inr (sort counts !
          nat (max 0 (double_ceil (double_mul double_0_95 (double_of_nat (length counts))) - 1)))"
proof -
  have "0 < int (length counts)" using assms by simp
  with double_ceil_0_95_le [of "length counts"]
  have "max 0 (double_ceil (double_mul double_0_95 (double_of_nat (length counts))) - 1)
      < int (length (sort counts))"
    by simp
  then have "index (sort counts)
        (max 0 (double_ceil (double_mul double_0_95 (double_of_nat (length counts))) - 1))
      = Inr (sort counts !
          nat (max 0 (double_ceil (double_mul double_0_95 (double_of_nat (length counts))) - 1)))"
    by (intro index_in_range) simp_all
  then show ?thesis by simp
qed


lemma summarize_counts_returns:
  assumes "counts \<noteq> []" "chars \<noteq> 0"
  shows "summarize_counts label prov mdl counts chars =
    Inr \<lparr>size_label = label, model = mdl, provider = prov,
         num_trials = int (length counts),
         mean_tokens = real_of_int (sum_list counts) / real (length counts),
         p50_tokens = real_of_int (sort counts ! (length counts div 2)),
         p95_tokens = real_of_int (sort counts !
            nat (max 0 (double_ceil (double_mul double_0_95 (double_of_nat (length counts))) - 1))),
         stdev_tokens =
           (if length counts > 1
            then sqrt ((\<Sum>x\<leftarrow>counts.
                  (real_of_int x - real_of_int (sum_list counts) / real (length counts))\<^sup>2)
                  / real (length counts))
            else 0),
         mean_tokens_per_1k_chars =
           real_of_int (sum_list counts) / real (length counts) / (real_of_int chars / 1000)\<rparr>"
  unfolding summarize_counts_def Let_def index_p50 [OF assms(1)] index_p95 [OF assms(1)]
  using assms by (simp add: fmean_def pstdev_def Let_def)

lemma summarize_counts_empty: "summarize_counts label prov mdl [] chars = Inl StatisticsError"
  by (simp add: summarize_counts_def fmean_def)

lemma summarize_counts_zero_chars:
  assumes "counts \<noteq> []"
  shows "summarize_counts label prov mdl counts 0 = Inl ZeroDivisionError"
  unfolding summarize_counts_def Let_def index_p50 [OF assms(1)] index_p95 [OF assms(1)]
  using assms by (simp add: fmean_def pstdev_def Let_def)


lemma sum_list_all_equal:
  "\<forall>x\<in>set xs. x = c \<Longrightarrow> sum_list xs = int (length xs) * (c::int)"
  by (induction xs) (simp_all add: algebra_simps)

lemma sum_list_squares_zero:
  "\<forall>x\<in>set xs. real_of_int x = mu \<Longrightarrow> (\<Sum>x\<leftarrow>xs. (real_of_int x - mu)\<^sup>2) = 0"
  by (induction xs) simp_all

lemma sum_list_double: "sum_list (map (\<lambda>c. 2 * c) xs) = 2 * sum_list (xs :: int list)"
  by (induction xs) simp_all

text \<open>
  C2. For a non-empty list \<open>counts\<close> of length \<open>n\<close> (and \<open>chars \<noteq> 0\<close>, so that a
  record is returned), \<open>p50_tokens\<close> is the element at index \<open>n div 2\<close> of the sorted
  counts and \<open>p95_tokens\<close> the element at index \<open>max 0 (\<lceil>0.95 * n\<rceil> - 1)\<close>, both indices
  lying inside the list. The index is computed in double precision; it agrees with the
  exact ceiling for every length below \<open>2^48\<close>.
\<close>

theorem summarize_counts_percentiles:
  assumes "counts \<noteq> []" "length counts < 2 ^ 48" "chars \<noteq> 0"
  shows "\<exists>s. summarize_counts label prov mdl counts chars = Inr s \<and>
           p50_tokens s = real_of_int (sort counts ! (length counts div 2)) \<and>
           p95_tokens s = real_of_int
             (sort counts ! nat (max 0 (\<lceil>0.95 * real (length counts)\<rceil> - 1))) \<and>
           length counts div 2 < length counts \<and>
           nat (max 0 (\<lceil>0.95 * real (length counts)\<rceil> - 1)) < length counts"
proof -
  have n: "1 \<le> length counts"
    using assms(1) by (simp add: Suc_le_eq)
  have c: "double_ceil (double_mul double_0_95 (double_of_nat (length counts)))
      = \<lceil>0.95 * real (length counts)\<rceil>"
    using double_ceil_0_95 [OF n assms(2)] by (simp only: ceiling_0_95)
  have "\<lceil>0.95 * real (length counts)\<rceil> \<le> int (length counts)"
    using double_ceil_0_95_le [of "length counts"] by (simp only: c)
  moreover have "0 < int (length counts)"
    using assms(1) by simp
  ultimately have "max 0 (\<lceil>0.95 * real (length counts)\<rceil> - 1) < int (length counts)"
    by linarith
  then have "nat (max 0 (\<lceil>0.95 * real (length counts)\<rceil> - 1)) < length counts"
    by linarith
  moreover have "length counts div 2 < length counts"
    using n by simp
  ultimately show ?thesis
    using summarize_counts_returns [OF assms(1,3), of label prov mdl] c assms(1) by simp
qed

theorem summarize_counts_percentiles_witness:
  "\<exists>s. summarize_counts ''4 chars'' ''openai'' ''gpt-4o'' [10, 20, 30, 40] 4 = Inr s \<and>
       p50_tokens s = 30 \<and> p95_tokens s = 40"
proof -
  have "sort [10, 20, 30, 40 :: int] = [10, 20, 30, 40]"
    by simp
  moreover have "\<lceil>0.95 * real (length [10, 20, 30, 40 :: int])\<rceil> = 4"
    by (simp add: ceiling_0_95)
  ultimately show ?thesis
    using summarize_counts_percentiles [of "[10, 20, 30, 40]" 4 "''4 chars''" "''openai''" "''gpt-4o''"]
    by simp
qed

text \<open>
  C3. For a non-empty list of counts (and \<open>chars \<noteq> 0\<close>), \<open>stdev_tokens\<close> is the population
  standard deviation, the square root of the mean over all \<open>n\<close> counts of the squared
  deviation from \<open>mean_tokens\<close>; it is never negative, and it is \<open>0\<close> when there is one
  count or all counts are equal.
\<close>

theorem summarize_counts_stdev:
  assumes "counts \<noteq> []" "chars \<noteq> 0"
  shows "\<exists>s. summarize_counts label prov mdl counts chars = Inr s \<and>
           stdev_tokens s =
             sqrt ((\<Sum>x\<leftarrow>counts. (real_of_int x - mean_tokens s)\<^sup>2) / real (length counts)) \<and>
           0 \<le> stdev_tokens s \<and>
           ((length counts = 1 \<or> (\<forall>x\<in>set counts. \<forall>y\<in>set counts. x = y))
              \<longrightarrow> stdev_tokens s = 0)"
proof -
  define mu where "mu = real_of_int (sum_list counts) / real (length counts)"
  define sd where "sd = sqrt ((\<Sum>x\<leftarrow>counts. (real_of_int x - mu)\<^sup>2) / real (length counts))"
  have zero: "sd = 0" if eq: "\<forall>x\<in>set counts. \<forall>y\<in>set counts. x = y"
  proof -
    from eq have "\<forall>x\<in>set counts. x = hd counts"
      using assms(1) by simp
    from sum_list_all_equal [OF this] have "mu = real_of_int (hd counts)"
      using assms(1) by (simp add: mu_def)
    with \<open>\<forall>x\<in>set counts. x = hd counts\<close> have "\<forall>x\<in>set counts. real_of_int x = mu"
      by simp
    from sum_list_squares_zero [OF this] show ?thesis
      by (simp add: sd_def)
  qed
  have one: "\<forall>x\<in>set counts. \<forall>y\<in>set counts. x = y" if "length counts = 1"
    using that by (cases counts) simp_all
  have nonneg: "0 \<le> sd"
    unfolding sd_def by (intro real_sqrt_ge_zero divide_nonneg_nonneg sum_list_nonneg) auto
  have "length counts = 1" if "\<not> 1 < length counts"
    using that assms(1) by (cases counts) simp_all
  then have guard: "(if 1 < length counts then sd else 0) = sd"
    using zero one by auto
  obtain s where s: "summarize_counts label prov mdl counts chars = Inr s"
      "mean_tokens s = mu" "stdev_tokens s = (if 1 < length counts then sd else 0)"
    using summarize_counts_returns [OF assms, of label prov mdl]
    by (simp add: mu_def sd_def)
  from s(3) guard have "stdev_tokens s = sd"
    by simp
  with s(1,2) nonneg zero one show ?thesis
    by (auto simp add: sd_def)
qed

theorem summarize_counts_stdev_witness:
  "\<exists>s. summarize_counts ''8 chars'' ''openai'' ''gpt-4o'' [7, 7, 7] 8 = Inr s \<and> stdev_tokens s = 0"
  using summarize_counts_stdev [of "[7, 7, 7]" 8 "''8 chars''" "''openai''" "''gpt-4o''"]
  by auto

text \<open>
  C4. For a non-empty list of counts and \<open>chars \<noteq> 0\<close>, \<open>mean_tokens_per_1k_chars\<close> is
  the mean of the counts divided by \<open>chars / 1000\<close>, and doubling every count doubles it.
\<close>

theorem summarize_counts_mean_per_1k:
  assumes "counts \<noteq> []" "chars \<noteq> 0"
  shows "\<exists>s d. summarize_counts label prov mdl counts chars = Inr s \<and>
           summarize_counts label prov mdl (map (\<lambda>c. 2 * c) counts) chars = Inr d \<and>
           mean_tokens s = real_of_int (sum_list counts) / real (length counts) \<and>
           mean_tokens_per_1k_chars s = mean_tokens s / (real_of_int chars / 1000) \<and>
           mean_tokens_per_1k_chars d = 2 * mean_tokens_per_1k_chars s"
proof -
  have "map (\<lambda>c. 2 * c) counts \<noteq> []"
    using assms(1) by simp
  from summarize_counts_returns [OF assms, of label prov mdl]
    summarize_counts_returns [OF this assms(2), of label prov mdl]
  show ?thesis
    by (simp add: sum_list_double)
qed

theorem summarize_counts_mean_per_1k_witness:
  "\<exists>s d. summarize_counts ''100 chars'' ''openai'' ''gpt-4o'' [20, 30] 100 = Inr s \<and>
     summarize_counts ''100 chars'' ''openai'' ''gpt-4o'' [40, 60] 100 = Inr d \<and>
     mean_tokens_per_1k_chars s = 250 \<and> mean_tokens_per_1k_chars d = 500"
  using summarize_counts_mean_per_1k [of "[20, 30]" 100 "''100 chars''" "''openai''" "''gpt-4o''"]
  by auto


section \<open>Properties of the counters and of the run\<close>

text \<open>
  The generated texts are made of the letters of the corpus and of spaces, so that no
  special token occurs in them and every encoding encodes them.
\<close>

lemma LOREM_WORDS_plain: "w \<in> set LOREM_WORDS \<Longrightarrow> CHR ''<'' \<notin> set w"
  by (auto simp add: LOREM_WORDS_def)

lemma join_space_plain:
  "\<forall>w\<in>set ws. CHR ''<'' \<notin> set w \<Longrightarrow> CHR ''<'' \<notin> set (join_space ws)"
  by (induction ws rule: join_space.induct) simp_all

lemma slice_to_plain: "CHR ''<'' \<notin> set s \<Longrightarrow> CHR ''<'' \<notin> set (slice_to s k)"
  by (auto simp add: slice_to_def dest: in_set_takeD)

lemma generate_loop_plain:
  assumes "generate_loop t r ws = Some (out, r')" "\<forall>w\<in>set ws. CHR ''<'' \<notin> set w"
  shows "CHR ''<'' \<notin> set out"
  using assms
proof (induction "nat (t - int (length (join_space ws)))" arbitrary: r ws rule: less_induct)
  case less
  let ?w = "fst (choice r)"
  let ?joined = "join_space (ws @ [?w])"
  have grow: "length (join_space ws) < length ?joined"
    by (rule length_join_space_snoc) (rule choice_nonempty)
  have plain: "\<forall>w\<in>set (ws @ [?w]). CHR ''<'' \<notin> set w"
    using less.prems(2) LOREM_WORDS_plain [OF choice_in_corpus, of r] by simp
  show ?case
  proof (cases "t \<le> int (length ?joined)")
    case True
    then have "generate_loop t r ws = Some (slice_to ?joined t, snd (choice r))"
      by (subst generate_loop_unfold) simp
    with less.prems(1) have "out = slice_to ?joined t"
      by simp
    with join_space_plain [OF plain] show ?thesis
      by (simp add: slice_to_plain)
  next
    case False
    then have "generate_loop t r ws = generate_loop t (snd (choice r)) (ws @ [?w])"
      by (subst generate_loop_unfold) simp
    with less.prems(1) have step: "generate_loop t (snd (choice r)) (ws @ [?w]) = Some (out, r')"
      by simp
    have "nat (t - int (length ?joined)) < nat (t - int (length (join_space ws)))"
      using False grow by linarith
    from less.hyps [OF this step plain] show ?thesis .
  qed
qed

lemma generate_texts_returns:
  "\<exists>texts r'. generate_texts n chars r = Some (texts, r') \<and> length texts = n \<and>
     draws r' = draws r \<and> (\<forall>t\<in>set texts. CHR ''<'' \<notin> set t)"
proof (induction n arbitrary: r)
  case 0
  show ?case by simp
next
  case (Suc n)
  obtain t r1 where t: "generate_loop chars r [] = Some (t, r1)" "draws r1 = draws r"
    using generate_loop_returns [of chars r "[]"] by blast
  from generate_loop_plain [OF t(1)] have plain: "CHR ''<'' \<notin> set t"
    by simp
  from Suc [of r1] obtain ts r2 where ts: "generate_texts n chars r1 = Some (ts, r2)"
      "length ts = n" "draws r2 = draws r1" "\<forall>t\<in>set ts. CHR ''<'' \<notin> set t"
    by blast
  have "generate_texts (Suc n) chars r = Some (t # ts, r2)"
    using t(1) ts(1) by (simp add: generate_lorem_text_by_chars_def)
  with t(2) ts(2,3,4) plain show ?case
    by simp
qed

lemma encode_plain: "CHR ''<'' \<notin> set s \<Longrightarrow> encode enc s = Inr (tokens enc s)"
proof -
  assume plain: "CHR ''<'' \<notin> set s"
  have "\<not> sublist (''<|'' @ name @ ''|>'') s" for name
  proof
    assume "sublist (''<|'' @ name @ ''|>'') s"
    then have "set (''<|'' @ name @ ''|>'') \<subseteq> set s"
      by (rule set_mono_sublist)
    with plain show False by simp
  qed
  then show ?thesis
    by (simp add: encode_def)
qed

lemma get_openai_encoder_for_model_available:
  assumes "get_encoding w ''cl100k_base'' = Some enc"
  shows "\<exists>e. get_openai_encoder_for_model w mdl = Inr e"
proof (cases "encoding_for_model w mdl")
  case (Some e)
  then have "get_openai_encoder_for_model w mdl = Inr e"
    by (simp add: get_openai_encoder_for_model_def)
  then show ?thesis ..
next
  case None
  show ?thesis
  proof (cases "get_encoding w ''o200k_base''")
    case (Some e)
    with None have "get_openai_encoder_for_model w mdl = Inr e"
      by (simp add: get_openai_encoder_for_model_def)
    then show ?thesis ..
  next
    case o200k: None
    with None assms have "get_openai_encoder_for_model w mdl = Inr enc"
      by (simp add: get_openai_encoder_for_model_def)
    then show ?thesis ..
  qed
qed

lemma count_tokens_openai_available:
  assumes "get_encoding w ''cl100k_base'' = Some enc"
  shows "\<exists>e :: encoding. \<forall>s. CHR ''<'' \<notin> set s \<longrightarrow>
           count_tokens_openai w mdl s = Inr (int (length (tokens e s)))"
proof -
  obtain e where e: "get_openai_encoder_for_model w mdl = Inr e"
    using get_openai_encoder_for_model_available [OF assms] ..
  have "\<forall>s. CHR ''<'' \<notin> set s \<longrightarrow>
      count_tokens_openai w mdl s = Inr (int (length (tokens e s)))"
  proof (intro allI impI)
    fix s :: string
    assume "CHR ''<'' \<notin> set s"
    then have "encode e s = Inr (tokens e s)"
      by (rule encode_plain)
    with e show "count_tokens_openai w mdl s = Inr (int (length (tokens e s)))"
      by (simp add: count_tokens_openai_def)
  qed
  then show ?thesis by (rule exI)
qed

lemma map_raise_total: "\<forall>x\<in>set xs. f x = Inr (g x) \<Longrightarrow> map_raise f xs = Inr (map g xs)"
  by (induction xs) simp_all

lemma openai_counts:
  assumes "get_encoding w ''cl100k_base'' = Some enc" "\<forall>t\<in>set texts. CHR ''<'' \<notin> set t"
  shows "\<exists>counts. map_raise (count_tokens_openai w mdl) texts = Inr counts \<and>
           length counts = length texts"
proof -
  obtain e :: encoding where "\<forall>s. CHR ''<'' \<notin> set s \<longrightarrow>
      count_tokens_openai w mdl s = Inr (int (length (tokens e s)))"
    using count_tokens_openai_available [OF assms(1)] by blast
  with assms(2) have "\<forall>t\<in>set texts. count_tokens_openai w mdl t = Inr (int (length (tokens e t)))"
    by blast
  from map_raise_total [OF this] show ?thesis by simp
qed

lemma openai_loop_rows:
  assumes "get_encoding w ''cl100k_base'' = Some enc" "\<forall>t\<in>set texts. CHR ''<'' \<notin> set t"
    "texts \<noteq> []" "chars \<noteq> 0"
  shows "\<exists>rows. openai_loop w label chars texts models results = Inr (results @ rows) \<and>
           map (\<lambda>r. (size_label r, provider r, model r)) rows
             = map (\<lambda>m. (label, ''openai'', m)) models \<and>
           (\<forall>r\<in>set rows. num_trials r = int (length texts)) \<and>
           (\<forall>r\<in>set rows. provider r = ''openai'')"
proof (induction models arbitrary: results)
  case Nil
  show ?case by simp
next
  case (Cons mdl models)
  obtain counts where counts: "map_raise (count_tokens_openai w mdl) texts = Inr counts"
      "length counts = length texts"
    using openai_counts [OF assms(1,2)] by blast
  then have "counts \<noteq> []" using assms(3) by auto
  from summarize_counts_returns [OF this assms(4), of label "''openai''" mdl]
  obtain row where row: "summarize_counts label ''openai'' mdl counts chars = Inr row"
      "size_label row = label" "provider row = ''openai''" "model row = mdl"
      "num_trials row = int (length counts)"
    by simp
  from Cons [of "results @ [row]"] obtain rows where
    rows: "openai_loop w label chars texts models (results @ [row]) = Inr ((results @ [row]) @ rows)"
      "map (\<lambda>r. (size_label r, provider r, model r)) rows = map (\<lambda>m. (label, ''openai'', m)) models"
      "\<forall>r\<in>set rows. num_trials r = int (length texts)"
      "\<forall>r\<in>set rows. provider r = ''openai''"
    by blast
  have "openai_loop w label chars texts (mdl # models) results = Inr (results @ (row # rows))"
    using counts(1) row(1) rows(1) by simp
  moreover have "map (\<lambda>r. (size_label r, provider r, model r)) (row # rows)
      = map (\<lambda>m. (label, ''openai'', m)) (mdl # models)"
    using row rows(2) by simp
  moreover have "\<forall>r\<in>set (row # rows). num_trials r = int (length texts)"
    using row(5) counts(2) rows(3) by simp
  moreover have "\<forall>r\<in>set (row # rows). provider r = ''openai''"
    using row(3) rows(4) by simp
  ultimately show ?case by blast
qed

lemma anthropic_loop_rows:
  assumes "\<forall>mdl. \<forall>t\<in>set texts. counter mdl t = Inr (g mdl t)" "texts \<noteq> []" "chars \<noteq> 0"
  shows "\<exists>rows. anthropic_loop counter label chars texts models results = Inr (results @ rows) \<and>
           map (\<lambda>r. (size_label r, provider r, model r)) rows
             = map (\<lambda>m. (label, ''anthropic'', m)) models \<and>
           (\<forall>r\<in>set rows. num_trials r = int (length texts)) \<and>
           (\<forall>r\<in>set rows.
              summarize_counts label ''anthropic'' (model r) (map (g (model r)) texts) chars = Inr r)"
proof (induction models arbitrary: results)
  case Nil
  show ?case by simp
next
  case (Cons mdl models)
  have counts: "map_raise (counter mdl) texts = Inr (map (g mdl) texts)"
    using assms(1) by (intro map_raise_total) simp
  have "map (g mdl) texts \<noteq> []" using assms(2) by simp
  from summarize_counts_returns [OF this assms(3), of label "''anthropic''" mdl]
  obtain row where row: "summarize_counts label ''anthropic'' mdl (map (g mdl) texts) chars = Inr row"
      "size_label row = label" "provider row = ''anthropic''" "model row = mdl"
      "num_trials row = int (length texts)"
    by simp
  from Cons [of "results @ [row]"] obtain rows where
    rows: "anthropic_loop counter label chars texts models (results @ [row])
         = Inr ((results @ [row]) @ rows)"
      "map (\<lambda>r. (size_label r, provider r, model r)) rows
         = map (\<lambda>m. (label, ''anthropic'', m)) models"
      "\<forall>r\<in>set rows. num_trials r = int (length texts)"
      "\<forall>r\<in>set rows.
         summarize_counts label ''anthropic'' (model r) (map (g (model r)) texts) chars = Inr r"
    by blast
  have "anthropic_loop counter label chars texts (mdl # models) results = Inr (results @ (row # rows))"
    using counts row(1) rows(1) by simp
  moreover have "map (\<lambda>r. (size_label r, provider r, model r)) (row # rows)
      = map (\<lambda>m. (label, ''anthropic'', m)) (mdl # models)"
    using row rows(2) by simp
  moreover have "\<forall>r\<in>set (row # rows). num_trials r = int (length texts)"
    using row(5) rows(3) by simp
  moreover have "\<forall>r\<in>set (row # rows).
      summarize_counts label ''anthropic'' (model r) (map (g (model r)) texts) chars = Inr r"
    using row(1,4) rows(4) by simp
  ultimately show ?case by blast
qed

lemma openai_loop_no_texts:
  "models \<noteq> [] \<Longrightarrow> openai_loop w label chars [] models results = Inl StatisticsError"
  by (cases models) (simp_all add: summarize_counts_empty)

lemma anthropic_loop_no_texts:
  "models \<noteq> [] \<Longrightarrow> anthropic_loop counter label chars [] models results = Inl StatisticsError"
  by (cases models) (simp_all add: summarize_counts_empty)

lemma openai_loop_zero_chars:
  assumes "get_encoding w ''cl100k_base'' = Some enc" "\<forall>t\<in>set texts. CHR ''<'' \<notin> set t"
    "texts \<noteq> []" "models \<noteq> []"
  shows "openai_loop w label 0 texts models results = Inl ZeroDivisionError"
proof (cases models)
  case Nil
  with assms(4) show ?thesis by simp
next
  case (Cons mdl rest)
  obtain counts where counts: "map_raise (count_tokens_openai w mdl) texts = Inr counts"
      "length counts = length texts"
    using openai_counts [OF assms(1,2)] by blast
  then have "counts \<noteq> []" using assms(3) by auto
  from summarize_counts_zero_chars [OF this] counts(1) Cons show ?thesis
    by simp
qed

lemma anthropic_loop_zero_chars:
  assumes "\<forall>mdl. \<forall>t\<in>set texts. counter mdl t = Inr (g mdl t)" "texts \<noteq> []" "models \<noteq> []"
  shows "anthropic_loop counter label 0 texts models results = Inl ZeroDivisionError"
proof (cases models)
  case Nil
  with assms(3) show ?thesis by simp
next
  case (Cons mdl rest)
  have counts: "map_raise (counter mdl) texts = Inr (map (g mdl) texts)"
    using assms(1) by (intro map_raise_total) simp
  have "map (g mdl) texts \<noteq> []" using assms(2) by simp
  from summarize_counts_zero_chars [OF this] counts Cons show ?thesis
    by simp
qed


lemma sizes_loop_rows:
  assumes "get_encoding w ''cl100k_base'' = Some enc"
    "\<forall>mdl s. CHR ''<'' \<notin> set s \<longrightarrow> counter mdl s = Inr (g mdl s)"
    "1 \<le> trials" "\<forall>c\<in>set sizes. c \<noteq> 0"
  shows "\<exists>rows. sizes_loop w counter trials openai_models anthropic_models sizes r results
             = Some (Inr (results @ rows)) \<and>
           map (\<lambda>x. (size_label x, provider x, model x)) rows
             = concat (map (\<lambda>c. map (\<lambda>m. (str_int c @ '' chars'', ''openai'', m)) openai_models
                               @ map (\<lambda>m. (str_int c @ '' chars'', ''anthropic'', m)) anthropic_models)
                 sizes) \<and>
           (\<forall>x\<in>set rows. num_trials x = trials) \<and>
           (\<forall>x\<in>set rows. provider x = ''anthropic'' \<longrightarrow>
              (\<exists>c\<in>set sizes. \<exists>r0 r1 texts.
                 draws r0 = draws r \<and>
                 generate_texts (nat trials) c r0 = Some (texts, r1) \<and>
                 summarize_counts (str_int c @ '' chars'') ''anthropic'' (model x)
                   (map (g (model x)) texts) c = Inr x))"
  using assms(4)
proof (induction sizes arbitrary: r results)
  case Nil
  show ?case by simp
next
  case (Cons chars sizes)
  let ?label = "str_int chars @ '' chars''"
  from Cons.prems have chars: "chars \<noteq> 0" and rest: "\<forall>c\<in>set sizes. c \<noteq> 0"
    by simp_all
  obtain texts r1 where texts: "generate_texts (nat trials) chars r = Some (texts, r1)"
      "length texts = nat trials" "draws r1 = draws r" "\<forall>t\<in>set texts. CHR ''<'' \<notin> set t"
    using generate_texts_returns by blast
  then have ne: "texts \<noteq> []" and len: "int (length texts) = trials"
    using assms(3) by auto
  have counter: "\<forall>mdl. \<forall>t\<in>set texts. counter mdl t = Inr (g mdl t)"
    using assms(2) texts(4) by blast
  from openai_loop_rows [OF assms(1) texts(4) ne chars, of ?label openai_models results]
  obtain rows1 where rows1:
      "openai_loop w ?label chars texts openai_models results = Inr (results @ rows1)"
      "map (\<lambda>x. (size_label x, provider x, model x)) rows1
         = map (\<lambda>m. (?label, ''openai'', m)) openai_models"
      "\<forall>x\<in>set rows1. num_trials x = trials"
      "\<forall>x\<in>set rows1. provider x = ''openai''"
    using len by auto
  from anthropic_loop_rows [OF counter ne chars, of ?label anthropic_models "results @ rows1"]
  obtain rows2 where rows2:
      "anthropic_loop counter ?label chars texts anthropic_models (results @ rows1)
         = Inr ((results @ rows1) @ rows2)"
      "map (\<lambda>x. (size_label x, provider x, model x)) rows2
         = map (\<lambda>m. (?label, ''anthropic'', m)) anthropic_models"
      "\<forall>x\<in>set rows2. num_trials x = trials"
      "\<forall>x\<in>set rows2.
         summarize_counts ?label ''anthropic'' (model x) (map (g (model x)) texts) chars = Inr x"
    using len by auto
  from Cons.IH [OF rest, of r1 "(results @ rows1) @ rows2"]
  obtain rows3 where rows3:
      "sizes_loop w counter trials openai_models anthropic_models sizes r1 ((results @ rows1) @ rows2)
         = Some (Inr (((results @ rows1) @ rows2) @ rows3))"
      "map (\<lambda>x. (size_label x, provider x, model x)) rows3
         = concat (map (\<lambda>c. map (\<lambda>m. (str_int c @ '' chars'', ''openai'', m)) openai_models
                           @ map (\<lambda>m. (str_int c @ '' chars'', ''anthropic'', m)) anthropic_models)
             sizes)"
      "\<forall>x\<in>set rows3. num_trials x = trials"
      "\<forall>x\<in>set rows3. provider x = ''anthropic'' \<longrightarrow>
         (\<exists>c\<in>set sizes. \<exists>r0 r1' texts.
            draws r0 = draws r1 \<and>
            generate_texts (nat trials) c r0 = Some (texts, r1') \<and>
            summarize_counts (str_int c @ '' chars'') ''anthropic'' (model x)
              (map (g (model x)) texts) c = Inr x)"
    by blast
  have "sizes_loop w counter trials openai_models anthropic_models (chars # sizes) r results
      = Some (Inr (results @ (rows1 @ rows2 @ rows3)))"
    using texts(1) rows1(1) rows2(1) rows3(1) by simp
  moreover have "map (\<lambda>x. (size_label x, provider x, model x)) (rows1 @ rows2 @ rows3)
      = concat (map (\<lambda>c. map (\<lambda>m. (str_int c @ '' chars'', ''openai'', m)) openai_models
                        @ map (\<lambda>m. (str_int c @ '' chars'', ''anthropic'', m)) anthropic_models)
          (chars # sizes))"
    using rows1(2) rows2(2) rows3(2) by simp
  moreover have "\<forall>x\<in>set (rows1 @ rows2 @ rows3). num_trials x = trials"
    using rows1(3) rows2(3) rows3(3) by auto
  moreover have "\<forall>x\<in>set (rows1 @ rows2 @ rows3). provider x = ''anthropic'' \<longrightarrow>
      (\<exists>c\<in>set (chars # sizes). \<exists>r0 r1 texts.
         draws r0 = draws r \<and>
         generate_texts (nat trials) c r0 = Some (texts, r1) \<and>
         summarize_counts (str_int c @ '' chars'') ''anthropic'' (model x)
           (map (g (model x)) texts) c = Inr x)"
  proof (intro ballI impI)
    fix x
    assume x: "x \<in> set (rows1 @ rows2 @ rows3)" and anth: "provider x = ''anthropic''"
    from x consider "x \<in> set rows1" | "x \<in> set rows2" | "x \<in> set rows3"
      by auto
    then show "\<exists>c\<in>set (chars # sizes). \<exists>r0 r1 texts.
         draws r0 = draws r \<and>
         generate_texts (nat trials) c r0 = Some (texts, r1) \<and>
         summarize_counts (str_int c @ '' chars'') ''anthropic'' (model x)
           (map (g (model x)) texts) c = Inr x"
    proof cases
      case 1
      with rows1(4) anth show ?thesis by simp
    next
      case 2
      with rows2(4) have "summarize_counts ?label ''anthropic'' (model x)
          (map (g (model x)) texts) chars = Inr x"
        by blast
      with texts(1) show ?thesis
        by (intro bexI [of _ chars]) auto
    next
      case 3
      with rows3(4) anth obtain c r0 r1' texts' where c: "c \<in> set sizes" "draws r0 = draws r1"
          "generate_texts (nat trials) c r0 = Some (texts', r1')"
          "summarize_counts (str_int c @ '' chars'') ''anthropic'' (model x)
              (map (g (model x)) texts') c = Inr x"
        by blast
      from c(2) texts(3) have "draws r0 = draws r" by simp
      with c(1,3,4) show ?thesis
        by (intro bexI [of _ c]) auto
    qed
  qed
  ultimately show ?case by blast
qed

lemma sizes_loop_no_trials:
  assumes "trials \<le> 0" "sizes \<noteq> []" "openai_models \<noteq> [] \<or> anthropic_models \<noteq> []"
  shows "sizes_loop w counter trials openai_models anthropic_models sizes r results
           = Some (Inl StatisticsError)"
proof (cases sizes)
  case Nil
  with assms(2) show ?thesis by simp
next
  case (Cons chars rest)
  have texts: "generate_texts (nat trials) chars r = Some ([], r)"
    using assms(1) by simp
  show ?thesis
  proof (cases "openai_models = []")
    case True
    with assms(3) have "anthropic_models \<noteq> []" by simp
    from anthropic_loop_no_texts [OF this] True texts Cons show ?thesis
      by simp
  next
    case False
    from openai_loop_no_texts [OF this] texts Cons show ?thesis
      by simp
  qed
qed

lemma sizes_loop_zero_size:
  assumes "get_encoding w ''cl100k_base'' = Some enc"
    "\<forall>mdl s. CHR ''<'' \<notin> set s \<longrightarrow> counter mdl s = Inr (g mdl s)"
    "1 \<le> trials" "0 \<in> set sizes"
    "openai_models \<noteq> [] \<or> anthropic_models \<noteq> []"
  shows "sizes_loop w counter trials openai_models anthropic_models sizes r results
           = Some (Inl ZeroDivisionError)"
  using assms(4)
proof (induction sizes arbitrary: r results)
  case Nil
  then show ?case by simp
next
  case (Cons chars sizes)
  let ?label = "str_int chars @ '' chars''"
  obtain texts r1 where texts: "generate_texts (nat trials) chars r = Some (texts, r1)"
      "length texts = nat trials" "\<forall>t\<in>set texts. CHR ''<'' \<notin> set t"
    using generate_texts_returns by blast
  then have ne: "texts \<noteq> []"
    using assms(3) by auto
  have counter: "\<forall>mdl. \<forall>t\<in>set texts. counter mdl t = Inr (g mdl t)"
    using assms(2) texts(3) by blast
  show ?case
  proof (cases "chars = 0")
    case True
    show ?thesis
    proof (cases "openai_models = []")
      case True
      with assms(5) have "anthropic_models \<noteq> []" by simp
      from anthropic_loop_zero_chars [OF counter ne this] True \<open>chars = 0\<close> texts(1) show ?thesis
        by simp
    next
      case False
      from openai_loop_zero_chars [OF assms(1) texts(3) ne this] \<open>chars = 0\<close> texts(1)
      show ?thesis
        by simp
    qed
  next
    case False
    with Cons.prems have rest: "0 \<in> set sizes" by simp
    from openai_loop_rows [OF assms(1) texts(3) ne False, of ?label openai_models results]
    obtain rows1 where rows1:
        "openai_loop w ?label chars texts openai_models results = Inr (results @ rows1)"
      by blast
    from anthropic_loop_rows [OF counter ne False, of ?label anthropic_models "results @ rows1"]
    obtain rows2 where rows2:
        "anthropic_loop counter ?label chars texts anthropic_models (results @ rows1)
           = Inr ((results @ rows1) @ rows2)"
      by blast
    from Cons.IH [OF rest, of r1 "(results @ rows1) @ rows2"] texts(1) rows1 rows2
    show ?thesis by simp
  qed
qed


lemma get_anthropic_counter_live:
  assumes "get_encoding w ''cl100k_base'' = Some enc" "anthropic_sdk w" "truthy (effective_key w api_key)"
  shows "get_anthropic_counter w api_key = Inr (count_live w (the (effective_key w api_key)) enc)"
  using assms by (simp add: get_anthropic_counter_def)

lemma get_anthropic_counter_approx:
  assumes "get_encoding w ''cl100k_base'' = Some enc"
    "\<not> (anthropic_sdk w \<and> truthy (effective_key w api_key))"
  shows "get_anthropic_counter w api_key = Inr (count_approx enc)"
  using assms by (auto simp add: get_anthropic_counter_def)

lemma get_anthropic_counter_available:
  assumes "get_encoding w ''cl100k_base'' = Some enc"
  shows "\<exists>counter. get_anthropic_counter w api_key = Inr counter"
  using get_anthropic_counter_live [OF assms, of api_key]
    get_anthropic_counter_approx [OF assms, of api_key]
  by blast

lemma count_approx_plain:
  "CHR ''<'' \<notin> set s \<Longrightarrow> count_approx enc mdl s = Inr (int (length (tokens enc s)))"
  by (simp add: count_approx_def encode_plain)

lemma count_live_plain:
  "CHR ''<'' \<notin> set s \<Longrightarrow>
   count_live w key enc mdl s =
     Inr (case count_tokens w key mdl s of Some n \<Rightarrow> n | None \<Rightarrow> int (length (tokens enc s)))"
  by (simp add: count_live_def encode_plain split: option.splits)

lemma get_anthropic_counter_plain:
  assumes "get_encoding w ''cl100k_base'' = Some enc"
  shows "\<exists>counter g. get_anthropic_counter w api_key = Inr counter \<and>
           (\<forall>mdl s. CHR ''<'' \<notin> set s \<longrightarrow> counter mdl s = Inr (g mdl s))"
proof (cases "anthropic_sdk w \<and> truthy (effective_key w api_key)")
  case True
  define g where "g = (\<lambda>mdl s. case count_tokens w (the (effective_key w api_key)) mdl s of
      Some n \<Rightarrow> n | None \<Rightarrow> int (length (tokens enc s)))"
  from True have "get_anthropic_counter w api_key
      = Inr (count_live w (the (effective_key w api_key)) enc)"
    using get_anthropic_counter_live [OF assms] by blast
  moreover have "\<forall>mdl s. CHR ''<'' \<notin> set s \<longrightarrow>
      count_live w (the (effective_key w api_key)) enc mdl s = Inr (g mdl s)"
    by (simp add: count_live_plain g_def)
  ultimately have "get_anthropic_counter w api_key
      = Inr (count_live w (the (effective_key w api_key)) enc) \<and>
    (\<forall>mdl s. CHR ''<'' \<notin> set s \<longrightarrow>
      count_live w (the (effective_key w api_key)) enc mdl s = Inr (g mdl s))"
    by simp
  then show ?thesis by (intro exI)
next
  case False
  define g where "g = (\<lambda>(mdl :: string) s. int (length (tokens enc s)))"
  from False have "get_anthropic_counter w api_key = Inr (count_approx enc)"
    by (rule get_anthropic_counter_approx [OF assms])
  moreover have "\<forall>mdl s. CHR ''<'' \<notin> set s \<longrightarrow> count_approx enc mdl s = Inr (g mdl s)"
    by (simp add: count_approx_plain g_def)
  ultimately have "get_anthropic_counter w api_key = Inr (count_approx enc) \<and>
    (\<forall>mdl s. CHR ''<'' \<notin> set s \<longrightarrow> count_approx enc mdl s = Inr (g mdl s))"
    by simp
  then show ?thesis by (intro exI)
qed

lemma count_live_always_failing:
  assumes "\<forall>mdl s. count_tokens w key mdl s = None"
  shows "count_live w key enc = count_approx enc"
  using assms by (intro ext) (simp add: count_live_def count_approx_def)

lemma get_anthropic_counter_always_failing:
  assumes "get_encoding w ''cl100k_base'' = Some enc" "\<forall>key mdl s. count_tokens w key mdl s = None"
  shows "get_anthropic_counter w api_key = Inr (count_approx enc)"
proof (cases "anthropic_sdk w \<and> truthy (effective_key w api_key)")
  case True
  then show ?thesis
    using get_anthropic_counter_live [OF assms(1), of api_key]
      count_live_always_failing [of w "the (effective_key w api_key)" enc] assms(2)
    by simp
next
  case False
  then show ?thesis
    by (rule get_anthropic_counter_approx [OF assms(1)])
qed

lemma count_tokens_openai_sdk:
  "count_tokens_openai (w\<lparr>anthropic_sdk := b\<rparr>) = count_tokens_openai w"
  by (intro ext) (simp add: count_tokens_openai_def get_openai_encoder_for_model_def
      cong: option.case_cong sum.case_cong)

lemma openai_loop_sdk:
  "openai_loop (w\<lparr>anthropic_sdk := b\<rparr>) label chars texts models results
     = openai_loop w label chars texts models results"
  by (induction models arbitrary: results)
    (simp_all add: count_tokens_openai_sdk cong: sum.case_cong)

lemma sizes_loop_sdk:
  "sizes_loop (w\<lparr>anthropic_sdk := b\<rparr>) counter trials openai_models anthropic_models sizes r results
     = sizes_loop w counter trials openai_models anthropic_models sizes r results"
  by (induction sizes arbitrary: r results)
    (simp_all add: openai_loop_sdk Let_def cong: option.case_cong sum.case_cong prod.case_cong)

lemma run_benchmark_always_failing:
  assumes "get_encoding w ''cl100k_base'' = Some enc" "\<forall>key mdl s. count_tokens w key mdl s = None"
  shows "run_benchmark w sizes trials openai_models anthropic_models seed api_key
     = run_benchmark (w\<lparr>anthropic_sdk := False\<rparr>) sizes trials openai_models anthropic_models
         seed api_key"
proof -
  have "get_anthropic_counter (w\<lparr>anthropic_sdk := False\<rparr>) api_key = Inr (count_approx enc)"
    using assms(1) by (intro get_anthropic_counter_approx) simp_all
  with get_anthropic_counter_always_failing [OF assms, of api_key] show ?thesis
    by (simp add: run_benchmark_def sizes_loop_sdk)
qed

lemma run_benchmark_rows:
  assumes "get_encoding w ''cl100k_base'' = Some enc" "1 \<le> trials" "\<forall>c\<in>set sizes. c \<noteq> 0"
  shows "\<exists>rows. run_benchmark w sizes trials openai_models anthropic_models seed api_key
             = Some (Inr rows) \<and>
           map (\<lambda>r. (size_label r, provider r, model r)) rows
             = concat (map (\<lambda>c. map (\<lambda>m. (str_int c @ '' chars'', ''openai'', m)) openai_models
                               @ map (\<lambda>m. (str_int c @ '' chars'', ''anthropic'', m)) anthropic_models)
                 sizes) \<and>
           (\<forall>r\<in>set rows. num_trials r = trials)"
proof -
  obtain counter g where counter: "get_anthropic_counter w api_key = Inr counter"
      "\<forall>mdl s. CHR ''<'' \<notin> set s \<longrightarrow> counter mdl s = Inr (g mdl s)"
    using get_anthropic_counter_plain [OF assms(1)] by blast
  from sizes_loop_rows [OF assms(1) counter(2) assms(2,3), of openai_models anthropic_models
      "Random w seed" "[]"] counter(1)
  show ?thesis
    by (auto simp add: run_benchmark_def)
qed

text \<open>
  With every request failing, each row of an Anthropic model is the summary of the
  approximate counts of the texts generated for its size.
\<close>

lemma run_benchmark_approx_rows:
  assumes "get_encoding w ''cl100k_base'' = Some enc" "\<forall>key mdl s. count_tokens w key mdl s = None"
    "1 \<le> trials" "\<forall>c\<in>set sizes. c \<noteq> 0"
  shows "\<exists>rows. run_benchmark w sizes trials openai_models anthropic_models seed api_key
             = Some (Inr rows) \<and>
           map (\<lambda>x. (size_label x, provider x, model x)) rows
             = concat (map (\<lambda>c. map (\<lambda>m. (str_int c @ '' chars'', ''openai'', m)) openai_models
                               @ map (\<lambda>m. (str_int c @ '' chars'', ''anthropic'', m)) anthropic_models)
                 sizes) \<and>
           (\<forall>x\<in>set rows. provider x = ''anthropic'' \<longrightarrow>
              (\<exists>c\<in>set sizes. \<exists>r0 r1 texts.
                 draws r0 = draws (Random w seed) \<and>
                 generate_texts (nat trials) c r0 = Some (texts, r1) \<and>
                 summarize_counts (str_int c @ '' chars'') ''anthropic'' (model x)
                   (map (\<lambda>s. int (length (tokens enc s))) texts) c = Inr x))"
proof -
  have "\<forall>mdl s. CHR ''<'' \<notin> set s \<longrightarrow>
      count_approx enc mdl s = Inr ((\<lambda>mdl s. int (length (tokens enc s))) mdl s)"
    by (simp add: count_approx_plain)
  from sizes_loop_rows [OF assms(1) this assms(3,4), of openai_models anthropic_models
      "Random w seed" "[]"] get_anthropic_counter_always_failing [OF assms(1,2), of api_key]
  show ?thesis
    by (auto simp add: run_benchmark_def)
qed


lemma generate_texts_example:
  "generate_texts 1 (- 5) \<lparr>draws = seeded_draws 5, pos = 0\<rparr>
     = Some ([''consec''], \<lparr>draws = seeded_draws 5, pos = 1\<rparr>)"
proof -
  have "generate_lorem_text_by_chars (- 5) \<lparr>draws = seeded_draws 5, pos = 0\<rparr>
      = Some (''consec'', \<lparr>draws = seeded_draws 5, pos = 1\<rparr>)"
    by (subst generate_first_word)
      (simp_all add: choice_def seeded_draws_def LOREM_WORDS_def slice_to_def)
  then show ?thesis
    by (simp add: numeral_eq_Suc)
qed

text \<open>
  C5. The claim fails for a negative size: the run does not abort and returns a record
  for it. What holds: the summarizer raises \<^verbatim>\<open>StatisticsError\<close> on an empty list of
  counts; a run over at least one size and one model, with the \<^verbatim>\<open>cl100k_base\<close> encoding
  available, ends with \<^verbatim>\<open>StatisticsError\<close> when the trial count is not positive and with
  \<^verbatim>\<open>ZeroDivisionError\<close> when the trial count is positive and one of the sizes is \<open>0\<close>.
\<close>

theorem precondition_violations:
  "summarize_counts label prov mdl [] chars = Inl StatisticsError \<and>
   (get_encoding w ''cl100k_base'' = Some enc \<and> sizes \<noteq> [] \<and>
    (openai_models \<noteq> [] \<or> anthropic_models \<noteq> []) \<longrightarrow>
      (trials \<le> 0 \<longrightarrow>
         run_benchmark w sizes trials openai_models anthropic_models seed api_key
           = Some (Inl StatisticsError)) \<and>
      (1 \<le> trials \<and> 0 \<in> set sizes \<longrightarrow>
         run_benchmark w sizes trials openai_models anthropic_models seed api_key
           = Some (Inl ZeroDivisionError)))"
proof -
  have "run_benchmark w sizes trials openai_models anthropic_models seed api_key
           = Some (Inl StatisticsError)"
    if "get_encoding w ''cl100k_base'' = Some enc" "sizes \<noteq> []"
      "openai_models \<noteq> [] \<or> anthropic_models \<noteq> []" "trials \<le> 0"
    using get_anthropic_counter_available [OF that(1), of api_key]
      sizes_loop_no_trials [OF that(4,2,3)]
    by (auto simp add: run_benchmark_def)
  moreover have "run_benchmark w sizes trials openai_models anthropic_models seed api_key
           = Some (Inl ZeroDivisionError)"
    if "get_encoding w ''cl100k_base'' = Some enc"
      "openai_models \<noteq> [] \<or> anthropic_models \<noteq> []" "1 \<le> trials" "0 \<in> set sizes"
  proof -
    obtain counter g where counter: "get_anthropic_counter w api_key = Inr counter"
        "\<forall>mdl s. CHR ''<'' \<notin> set s \<longrightarrow> counter mdl s = Inr (g mdl s)"
      using get_anthropic_counter_plain [OF \<open>get_encoding w ''cl100k_base'' = Some enc\<close>]
      by blast
    from sizes_loop_zero_size [OF \<open>get_encoding w ''cl100k_base'' = Some enc\<close> counter(2)
        \<open>1 \<le> trials\<close> \<open>0 \<in> set sizes\<close>
        \<open>openai_models \<noteq> [] \<or> anthropic_models \<noteq> []\<close>] counter(1)
    show ?thesis
      by (simp add: run_benchmark_def)
  qed
  ultimately show ?thesis
    using summarize_counts_empty by blast
qed

theorem precondition_violations_witness:
  "run_benchmark offline_world [256] 0 [''gpt-4o''] [] 17 None = Some (Inl StatisticsError) \<and>
   run_benchmark offline_world [256, 0] 3 [] [''claude-3-5-haiku-20241022''] 17 None
     = Some (Inl ZeroDivisionError)"
proof -
  have "get_encoding offline_world ''cl100k_base'' = Some char_encoding"
    by (simp add: offline_world_def)
  then show ?thesis
    using precondition_violations [of "''''" "''''" "''''" 0 offline_world char_encoding
        "[256]" "[''gpt-4o'']" "[]" 0 17 None]
      precondition_violations [of "''''" "''''" "''''" 0 offline_world char_encoding
        "[256, 0]" "[]" "[''claude-3-5-haiku-20241022'']" 3 17 None]
    by simp
qed

theorem negative_size_counterexample:
  "run_benchmark offline_world [- 5] 1 [''gpt-4o''] [] 5 None =
     Some (Inr [\<lparr>size_label = ''-5 chars'', model = ''gpt-4o'', provider = ''openai'',
                 num_trials = 1, mean_tokens = 6, p50_tokens = 6, p95_tokens = 6,
                 stdev_tokens = 0, mean_tokens_per_1k_chars = - 1200\<rparr>])"
proof -
  have "count_tokens_openai offline_world ''gpt-4o'' ''consec'' = Inr 6"
    by (simp add: count_tokens_openai_def get_openai_encoder_for_model_def offline_world_def
        char_encoding_def encode_plain)
  moreover have "double_ceil (double_mul double_0_95 (double_of_nat (length [6 :: int]))) = 1"
    using double_ceil_0_95 [of 1] by simp
  then have "summarize_counts ''-5 chars'' ''openai'' ''gpt-4o'' [6] (- 5) =
      Inr \<lparr>size_label = ''-5 chars'', model = ''gpt-4o'', provider = ''openai'',
                 num_trials = 1, mean_tokens = 6, p50_tokens = 6, p95_tokens = 6,
                 stdev_tokens = 0, mean_tokens_per_1k_chars = - 1200\<rparr>"
    using summarize_counts_returns [of "[6]" "- 5" "''-5 chars''" "''openai''" "''gpt-4o''"]
    by simp
  moreover have "str_int (- 5) = ''-5''"
    by (simp add: str_int_def str_nat.simps)
  moreover have "Random offline_world 5 = \<lparr>draws = seeded_draws 5, pos = 0\<rparr>"
    by (simp add: offline_world_def)
  moreover have "get_anthropic_counter offline_world None = Inr (count_approx char_encoding)"
    by (simp add: get_anthropic_counter_def offline_world_def)
  ultimately show ?thesis
    using generate_texts_example by (simp add: run_benchmark_def)
qed

text \<open>
  C7. A key is present when it is a non-empty string (the truth value that the
  \<^verbatim>\<open>or\<close> and the \<^verbatim>\<open>if\<close> of the source test). The effective key is the explicit
  argument when that is present and the value of the environment variable otherwise;
  with the package imported and the effective key present the live counter is bound to
  that key, and with neither key present the approximate counter is bound, which makes
  no request: what it returns is fixed by the encoding and the text.
\<close>

theorem credential_precedence:
  assumes "get_encoding w ''cl100k_base'' = Some enc"
  shows "(truthy api_key \<longrightarrow> effective_key w api_key = api_key) \<and>
         (\<not> truthy api_key \<longrightarrow> effective_key w api_key = environ_key w) \<and>
         (anthropic_sdk w \<and> truthy (effective_key w api_key) \<longrightarrow>
            get_anthropic_counter w api_key
              = Inr (count_live w (the (effective_key w api_key)) enc)) \<and>
         (\<not> truthy api_key \<and> \<not> truthy (environ_key w) \<longrightarrow>
            get_anthropic_counter w api_key = Inr (count_approx enc) \<and>
            (\<forall>mdl s. count_approx enc mdl s =
               (if \<exists>name\<in>set (special enc). sublist (''<|'' @ name @ ''|>'') s
                then Inl ValueError
                else Inr (int (length (tokens enc s))))))"
proof -
  have "effective_key w api_key = environ_key w" if "\<not> truthy api_key"
    using that by (simp add: effective_key_def or_else_def)
  moreover have "effective_key w api_key = api_key" if "truthy api_key"
    using that by (simp add: effective_key_def or_else_def)
  ultimately show ?thesis
    using get_anthropic_counter_live [OF assms, of api_key]
      get_anthropic_counter_approx [OF assms, of api_key]
    by (auto simp add: count_approx_def encode_def)
qed

theorem credential_precedence_witness:
  "effective_key (offline_world\<lparr>environ_key := Some ''env-key''\<rparr>) (Some ''arg-key'')
     = Some ''arg-key'' \<and>
   effective_key (offline_world\<lparr>environ_key := Some ''env-key''\<rparr>) None = Some ''env-key'' \<and>
   get_anthropic_counter (offline_world\<lparr>anthropic_sdk := True\<rparr>) None
     = Inr (count_approx char_encoding)"
proof -
  have "get_encoding (offline_world\<lparr>environ_key := Some ''env-key''\<rparr>) ''cl100k_base''
      = Some char_encoding"
    and "get_encoding (offline_world\<lparr>anthropic_sdk := True\<rparr>) ''cl100k_base''
      = Some char_encoding"
    by (simp_all add: offline_world_def)
  then show ?thesis
    using credential_precedence [of "offline_world\<lparr>environ_key := Some ''env-key''\<rparr>"
        char_encoding "Some ''arg-key''"]
      credential_precedence [of "offline_world\<lparr>environ_key := Some ''env-key''\<rparr>"
        char_encoding None]
      credential_precedence [of "offline_world\<lparr>anthropic_sdk := True\<rparr>" char_encoding None]
    by (simp add: truthy_def offline_world_def)
qed


text \<open>
  C6. The claim fails where the approximate encoder itself raises: after a failed
  request on a text with a special token, the \<^verbatim>\<open>ValueError\<close> of \<^verbatim>\<open>encode\<close> leaves the
  counter. What holds, with the \<^verbatim>\<open>cl100k_base\<close> encoding available: when the package or
  the key is missing, the counter bound is the approximate one; when the live counter is
  bound, a call whose request fails gives what the approximate counter gives for the
  same text, which is the number of tokens of the text unless the text contains a
  special token. When every request fails, the counter bound is equal to the
  approximate counter, the run has the outcome of a run without the package, and for a
  positive trial count and sizes other than \<open>0\<close> it returns its rows, the row of every
  Anthropic model being the summary of the approximate counts of the texts generated for
  its size.
\<close>

theorem anthropic_counter_fallback:
  assumes "get_encoding w ''cl100k_base'' = Some enc"
  shows "(\<not> (anthropic_sdk w \<and> truthy (effective_key w api_key)) \<longrightarrow>
            get_anthropic_counter w api_key = Inr (count_approx enc)) \<and>
         (anthropic_sdk w \<and> truthy (effective_key w api_key) \<longrightarrow>
            (\<exists>counter. get_anthropic_counter w api_key = Inr counter \<and>
               (\<forall>mdl s. counter mdl s =
                  (case count_tokens w (the (effective_key w api_key)) mdl s of
                     Some n \<Rightarrow> Inr n
                   | None \<Rightarrow> count_approx enc mdl s)))) \<and>
         (\<forall>mdl s. count_approx enc mdl s =
            (if \<exists>name\<in>set (special enc). sublist (''<|'' @ name @ ''|>'') s then Inl ValueError
             else Inr (int (length (tokens enc s))))) \<and>
         ((\<forall>key mdl s. count_tokens w key mdl s = None) \<longrightarrow>
            get_anthropic_counter w api_key = Inr (count_approx enc) \<and>
            run_benchmark w sizes trials openai_models anthropic_models seed api_key
              = run_benchmark (w\<lparr>anthropic_sdk := False\<rparr>) sizes trials openai_models
                  anthropic_models seed api_key \<and>
            (1 \<le> trials \<and> (\<forall>c\<in>set sizes. c \<noteq> 0) \<longrightarrow>
               (\<exists>rows. run_benchmark w sizes trials openai_models anthropic_models seed api_key
                  = Some (Inr rows) \<and>
                  map (\<lambda>x. (size_label x, provider x, model x)) rows
                    = concat (map (\<lambda>c.
                          map (\<lambda>m. (str_int c @ '' chars'', ''openai'', m)) openai_models
                          @ map (\<lambda>m. (str_int c @ '' chars'', ''anthropic'', m)) anthropic_models)
                        sizes) \<and>
                  (\<forall>x\<in>set rows. provider x = ''anthropic'' \<longrightarrow>
                     (\<exists>c\<in>set sizes. \<exists>r0 r1 texts.
                        draws r0 = draws (Random w seed) \<and>
                        generate_texts (nat trials) c r0 = Some (texts, r1) \<and>
                        summarize_counts (str_int c @ '' chars'') ''anthropic'' (model x)
                          (map (\<lambda>s. int (length (tokens enc s))) texts) c = Inr x)))))"
proof -
  have live: "\<exists>counter. get_anthropic_counter w api_key = Inr counter \<and>
       (\<forall>mdl s. counter mdl s =
          (case count_tokens w (the (effective_key w api_key)) mdl s of
             Some n \<Rightarrow> Inr n
           | None \<Rightarrow> count_approx enc mdl s))"
    if "anthropic_sdk w" "truthy (effective_key w api_key)"
    using get_anthropic_counter_live [OF assms that]
    by (simp add: count_live_def count_approx_def cong: option.case_cong)
  have approx: "\<forall>mdl s. count_approx enc mdl s =
      (if \<exists>name\<in>set (special enc). sublist (''<|'' @ name @ ''|>'') s then Inl ValueError
       else Inr (int (length (tokens enc s))))"
    by (simp add: count_approx_def encode_def)
  show ?thesis
    using get_anthropic_counter_approx [OF assms, of api_key] live approx
      get_anthropic_counter_always_failing [OF assms, of api_key]
      run_benchmark_always_failing [OF assms, of sizes trials openai_models anthropic_models
        seed api_key]
      run_benchmark_approx_rows [OF assms, of trials sizes openai_models anthropic_models
        seed api_key]
    by blast
qed

theorem anthropic_counter_fallback_witness:
  "get_anthropic_counter (offline_world\<lparr>anthropic_sdk := True\<rparr>) (Some ''key'')
     = Inr (count_approx char_encoding) \<and>
   (\<exists>rows. run_benchmark (offline_world\<lparr>anthropic_sdk := True\<rparr>) [256, 512] 3 []
       [''claude-3-5-haiku-20241022''] 17 (Some ''key'') = Some (Inr rows) \<and>
      map (\<lambda>x. (size_label x, provider x, model x)) rows =
        [(''256 chars'', ''anthropic'', ''claude-3-5-haiku-20241022''),
         (''512 chars'', ''anthropic'', ''claude-3-5-haiku-20241022'')])"
proof -
  have avail: "get_encoding (offline_world\<lparr>anthropic_sdk := True\<rparr>) ''cl100k_base''
      = Some char_encoding"
    by (simp add: offline_world_def)
  have fails: "\<forall>key mdl s. count_tokens (offline_world\<lparr>anthropic_sdk := True\<rparr>) key mdl s = None"
    by (simp add: offline_world_def)
  have pre: "1 \<le> (3::int) \<and> (\<forall>c\<in>set [256, 512 :: int]. c \<noteq> 0)"
    by simp
  have labels: "str_int 256 = ''256''" "str_int 512 = ''512''"
    by (simp_all add: str_int_def str_nat.simps)
  note fallback = anthropic_counter_fallback [OF avail, of "Some ''key''" "[256, 512]" 3 "[]"
      "[''claude-3-5-haiku-20241022'']" 17]
  from fallback fails have "get_anthropic_counter (offline_world\<lparr>anthropic_sdk := True\<rparr>)
      (Some ''key'') = Inr (count_approx char_encoding)"
    by blast
  moreover from fallback fails pre obtain rows where
    "run_benchmark (offline_world\<lparr>anthropic_sdk := True\<rparr>) [256, 512] 3 []
       [''claude-3-5-haiku-20241022''] 17 (Some ''key'') = Some (Inr rows)"
    "map (\<lambda>x. (size_label x, provider x, model x)) rows
       = concat (map (\<lambda>c.
             map (\<lambda>m. (str_int c @ '' chars'', ''openai'', m)) []
             @ map (\<lambda>m. (str_int c @ '' chars'', ''anthropic'', m)) [''claude-3-5-haiku-20241022''])
           [256, 512])"
    by blast
  ultimately show ?thesis
    using labels by auto
qed

theorem special_token_counterexample:
  "get_anthropic_counter (offline_world\<lparr>anthropic_sdk := True\<rparr>) (Some ''key'')
     = Inr (count_live (offline_world\<lparr>anthropic_sdk := True\<rparr>) ''key'' char_encoding) \<and>
   count_live (offline_world\<lparr>anthropic_sdk := True\<rparr>) ''key'' char_encoding
     ''claude-3-5-haiku-20241022'' ''<|endoftext|>'' = Inl ValueError"
  by (simp add: get_anthropic_counter_def effective_key_def or_else_def truthy_def
      offline_world_def count_live_def encode_def char_encoding_def)


text \<open>
  C8. For a run inside the Runner's contract, a positive trial count and sizes other
  than \<open>0\<close>, with the \<^verbatim>\<open>cl100k_base\<close> encoding available: the run returns, and its rows
  are one for every size, provider and model, the sizes in the order given and, within a
  size, the OpenAI models in the order given before the Anthropic models in the order
  given; every row counts \<open>trials\<close> trials.
\<close>

theorem run_benchmark_order:
  assumes "get_encoding w ''cl100k_base'' = Some enc" "1 \<le> trials" "\<forall>c\<in>set sizes. c \<noteq> 0"
  shows "\<exists>rows. run_benchmark w sizes trials openai_models anthropic_models seed api_key
             = Some (Inr rows) \<and>
           map (\<lambda>r. (size_label r, provider r, model r)) rows
             = concat (map (\<lambda>c. map (\<lambda>m. (str_int c @ '' chars'', ''openai'', m)) openai_models
                               @ map (\<lambda>m. (str_int c @ '' chars'', ''anthropic'', m)) anthropic_models)
                 sizes) \<and>
           (\<forall>r\<in>set rows. num_trials r = trials)"
  using assms by (rule run_benchmark_rows)

theorem run_benchmark_order_witness:
  "\<exists>rows. run_benchmark offline_world [256, 512] 3 [''gpt-4o''] [''claude-3-5-haiku-20241022'']
       17 None = Some (Inr rows) \<and>
     map (\<lambda>r. (size_label r, provider r, model r)) rows =
       [(''256 chars'', ''openai'', ''gpt-4o''),
        (''256 chars'', ''anthropic'', ''claude-3-5-haiku-20241022''),
        (''512 chars'', ''openai'', ''gpt-4o''),
        (''512 chars'', ''anthropic'', ''claude-3-5-haiku-20241022'')]"
proof -
  have "get_encoding offline_world ''cl100k_base'' = Some char_encoding"
    by (simp add: offline_world_def)
  moreover have "str_int 256 = ''256''" "str_int 512 = ''512''"
    by (simp_all add: str_int_def str_nat.simps)
  ultimately show ?thesis
    using run_benchmark_order [of offline_world char_encoding 3 "[256, 512]" "[''gpt-4o'']"
        "[''claude-3-5-haiku-20241022'']" 17 None]
    by auto
qed

end
